theory Spec2Isabelle
  imports Main
begin

section \<open>Python values used by the scheduler\<close>

text \<open>
  The repository is two Python files: \<^verbatim>\<open>cp_sat.py\<close> builds a CP-SAT constraint model and
  hands it to the OR-Tools solver, \<^verbatim>\<open>app.py\<close> is the Streamlit front end that calls it.
  Python integers are unbounded, so they are \<^typ>\<open>int\<close>; positions in lists are \<^typ>\<open>nat\<close>.
  Every exception the code can raise is a value of \<open>py_error\<close>. \<open>Int64Error\<close> is the
  exception OR-Tools raises when it is handed an integer that does not fit a signed
  64-bit integer (an \<^verbatim>\<open>OverflowError\<close>, a \<^verbatim>\<open>TypeError\<close> or a \<^verbatim>\<open>ValueError\<close>, by release
  of OR-Tools). Memory and time are not bounded: every loop of the code is taken to run
  to its end.
\<close>

datatype py_error = ValueError | IndexError | ZeroDivisionError | RuntimeError string
  | Int64Error

definition is_int64 :: "int \<Rightarrow> bool" where
  "is_int64 x = (- (2 ^ 63) \<le> x \<and> x < 2 ^ 63)"

text \<open>\<^verbatim>\<open>range(k)\<close>: empty for \<open>k \<le> 0\<close>.\<close>

definition range_py :: "int \<Rightarrow> nat list" where
  "range_py k = [0..<nat k]"

text \<open>\<^verbatim>\<open>xs.index(x)\<close>: the first position of \<open>x\<close>, \<^verbatim>\<open>ValueError\<close> when it is absent.\<close>

fun list_index :: "'a list \<Rightarrow> 'a \<Rightarrow> py_error + nat" where
  "list_index [] x = Inl ValueError"
| "list_index (y # ys) x =
     (if y = x then Inr 0
      else (case list_index ys x of Inl e \<Rightarrow> Inl e | Inr k \<Rightarrow> Inr (Suc k)))"

text \<open>
  \<^verbatim>\<open>xs[i]\<close> on a Python list: an index in \<open>[-len, 0)\<close> counts from the end, an index
  outside \<open>[-len, len)\<close> raises \<^verbatim>\<open>IndexError\<close>.
\<close>

definition list_getitem :: "'a list \<Rightarrow> int \<Rightarrow> py_error + 'a" where
  "list_getitem xs i =
     (if 0 \<le> i \<and> i < int (length xs) then Inr (xs ! nat i)
      else if - int (length xs) \<le> i \<and> i < 0 then Inr (xs ! nat (int (length xs) + i))
      else Inl IndexError)"

section \<open>The constraint model (the part of OR-Tools' interface the code uses)\<close>

text \<open>
  The variables the code creates, by the names it gives them:
  \<^verbatim>\<open>day_{d}\<close>, \<^verbatim>\<open>b_{i}_{d}\<close>, \<^verbatim>\<open>w_{i}_{k}\<close> and \<^verbatim>\<open>weekend_used_{i}\<close>.
\<close>

datatype var = day_var nat | b_var nat nat | w_var nat nat | weekend_used_var nat

text \<open>A literal is a Boolean variable \<open>x\<close> or \<^verbatim>\<open>x.Not()\<close>.\<close>

datatype literal = Lit var | NotLit var

text \<open>
  The linear expressions the code writes: a variable, an integer, and \<^verbatim>\<open>sum(...)\<close> of
  variables. Python's \<^verbatim>\<open>sum\<close> of no variable is the integer 0, and \<^verbatim>\<open>model.Add\<close> of the
  Boolean that a comparison of two integers gives adds an always-true or always-false
  constraint; \<open>LinSum []\<close> compared with a constant has that meaning below.
\<close>

datatype linear_expr = LinVar var | LinConst int | LinSum "var list"

datatype relation = EQ | NE | LE | GE

text \<open>
  \<open>Linear ls a r b\<close> is \<^verbatim>\<open>model.Add(a r b)\<close> with the enforcement literals \<open>ls\<close>
  (\<^verbatim>\<open>OnlyEnforceIf\<close>); \<open>MaxEquality t xs\<close> is \<^verbatim>\<open>model.AddMaxEquality(t, xs)\<close>.
\<close>

datatype constraint = Linear "literal list" linear_expr relation linear_expr
  | MaxEquality var "var list"

definition Add :: "linear_expr \<Rightarrow> relation \<Rightarrow> linear_expr \<Rightarrow> constraint" where
  "Add a r b = Linear [] a r b"

fun OnlyEnforceIf :: "constraint \<Rightarrow> literal \<Rightarrow> constraint" where
  "OnlyEnforceIf (Linear ls a r b) l = Linear (ls @ [l]) a r b"
| "OnlyEnforceIf (MaxEquality t xs) l = MaxEquality t xs"

text \<open>
  A model is the list of its variables, each with the bounds of its domain
  (\<^verbatim>\<open>NewIntVar(lb, ub, name)\<close>; \<^verbatim>\<open>NewBoolVar(name)\<close> has the bounds 0 and 1), and the list
  of its constraints, both in the order the code adds them.
\<close>

record cp_model =
  variables :: "(var \<times> int \<times> int) list"
  constraints :: "constraint list"

definition NewIntVar :: "int \<Rightarrow> int \<Rightarrow> var \<Rightarrow> var \<times> int \<times> int" where
  "NewIntVar lb ub x = (x, lb, ub)"

definition NewBoolVar :: "var \<Rightarrow> var \<times> int \<times> int" where
  "NewBoolVar x = (x, 0, 1)"

section \<open>\<^verbatim>\<open>cp_sat.py\<close>: building the model\<close>

definition days :: "string list" where
  "days = [''Monday'', ''Tuesday'', ''Wednesday'', ''Thursday'', ''Friday'', ''Saturday'',
           ''Sunday'']"

text \<open>
  Lines 20-22: the Fridays that have a Saturday after them inside the month.
  \<^verbatim>\<open>days.index("Friday")\<close> is 4 (lemma \<open>index_Friday\<close>).
\<close>

definition weekend_fridays :: "nat \<Rightarrow> int \<Rightarrow> nat list" where
  "weekend_fridays start_idx m =
     filter (\<lambda>d. (start_idx + d) mod 7 = 4 \<and> int d + 1 < m) (range_py m)"

text \<open>Line 27: one integer variable per day, with the domain \<open>[0, n - 1]\<close>.\<close>

definition day_vars :: "int \<Rightarrow> var list" where
  "day_vars m = map day_var (range_py m)"

definition day_var_decls :: "int \<Rightarrow> int \<Rightarrow> (var \<times> int \<times> int) list" where
  "day_var_decls n m = map (\<lambda>d. NewIntVar 0 (n - 1) (day_var d)) (range_py m)"

text \<open>Lines 30-35: the indicators \<open>b[i, d]\<close> and their two links to the day variable.\<close>

definition b_decls :: "int \<Rightarrow> int \<Rightarrow> (var \<times> int \<times> int) list" where
  "b_decls n m = concat (map (\<lambda>i. map (\<lambda>d. NewBoolVar (b_var i d)) (range_py m)) (range_py n))"

definition b_links :: "int \<Rightarrow> int \<Rightarrow> constraint list" where
  "b_links n m =
     concat (map (\<lambda>i. concat (map (\<lambda>d.
       [OnlyEnforceIf (Add (LinVar (day_var d)) EQ (LinConst (int i))) (Lit (b_var i d)),
        OnlyEnforceIf (Add (LinVar (day_var d)) NE (LinConst (int i))) (NotLit (b_var i d))])
       (range_py m))) (range_py n))"

text \<open>
  Lines 38-45: the indicators \<open>w[i, k]\<close>, \<open>k\<close> the position of the Friday \<open>d\<close> in
  \<open>weekend_fridays\<close>. A Friday of that list has \<open>d + 1 < m\<close>, so both \<^verbatim>\<open>day_vars[d]\<close>
  and \<^verbatim>\<open>day_vars[d+1]\<close> exist.
\<close>

definition w_decls :: "int \<Rightarrow> nat list \<Rightarrow> (var \<times> int \<times> int) list" where
  "w_decls n fridays =
     concat (map (\<lambda>i. map (\<lambda>k. NewBoolVar (w_var i k)) [0..<length fridays]) (range_py n))"

definition w_links :: "int \<Rightarrow> nat list \<Rightarrow> constraint list" where
  "w_links n fridays =
     concat (map (\<lambda>i. concat (map (\<lambda>(k, d).
       [OnlyEnforceIf (Add (LinVar (day_var d)) EQ (LinConst (int i))) (Lit (w_var i k)),
        OnlyEnforceIf (Add (LinVar (day_var (d + 1))) EQ (LinConst (int i))) (Lit (w_var i k)),
        OnlyEnforceIf (Add (LinVar (day_var d)) NE (LinConst (int i))) (NotLit (w_var i k))])
       (enumerate 0 fridays))) (range_py n))"

text \<open>Lines 48-50 (comment 1, no doctor on 4 consecutive days).\<close>

definition no_four_consecutive :: "int \<Rightarrow> int \<Rightarrow> constraint list" where
  "no_four_consecutive n m =
     concat (map (\<lambda>i. map (\<lambda>d.
       Add (LinSum (map (\<lambda>k. b_var i (d + k)) (range_py 4))) LE (LinConst 3))
       (range_py (m - 3))) (range_py n))"

text \<open>Lines 53-54 (comment 2a, the same doctor on Friday and Saturday).\<close>

definition weekend_same_doctor :: "nat list \<Rightarrow> constraint list" where
  "weekend_same_doctor fridays =
     map (\<lambda>d. Add (LinVar (day_var d)) EQ (LinVar (day_var (d + 1)))) fridays"

text \<open>Lines 57-62 (comment 2b, the number of distinct weekend doctors).\<close>

definition weekend_used :: "int \<Rightarrow> var list" where
  "weekend_used n = map weekend_used_var (range_py n)"

definition weekend_used_decls :: "int \<Rightarrow> (var \<times> int \<times> int) list" where
  "weekend_used_decls n = map (\<lambda>i. NewBoolVar (weekend_used_var i)) (range_py n)"

definition weekend_spread :: "int \<Rightarrow> nat \<Rightarrow> constraint list" where
  "weekend_spread n W =
     map (\<lambda>i. MaxEquality (weekend_used_var i) (map (\<lambda>k. w_var i k) (range_py (int W))))
       (range_py n)
     @ [Add (LinSum (weekend_used n)) EQ (LinConst (min n (int W)))]"

text \<open>
  Lines 65-66 (comment 3): \<^verbatim>\<open>for i, d in disallowed_pairs: model.Add(day_vars[d] != i)\<close>.
  The first component of a pair is used as the doctor, the second indexes the Python
  list \<open>day_vars\<close>. For each pair \<^verbatim>\<open>day_vars[d]\<close> is evaluated first (\<^verbatim>\<open>IndexError\<close>), then
  the comparison with \<open>i\<close>, which OR-Tools refuses when \<open>i\<close> is not a 64-bit integer;
  the loop stops at the first exception.
\<close>

fun disallowed :: "var list \<Rightarrow> (int \<times> int) list \<Rightarrow> py_error + constraint list" where
  "disallowed dvs [] = Inr []"
| "disallowed dvs ((i, d) # ps) =
     (case list_getitem dvs d of
        Inl e \<Rightarrow> Inl e
      | Inr x \<Rightarrow>
          if \<not> is_int64 i then Inl Int64Error
          else
            (case disallowed dvs ps of
               Inl e \<Rightarrow> Inl e
             | Inr cs \<Rightarrow> Inr (Add (LinVar x) NE (LinConst i) # cs)))"

text \<open>Lines 69-76 (comment 4a); \<open>L\<close> and \<open>H\<close> are computed by the caller below.\<close>

definition fair_totals :: "int \<Rightarrow> int \<Rightarrow> int \<Rightarrow> int \<Rightarrow> constraint list" where
  "fair_totals n m L H =
     concat (map (\<lambda>i.
       [Add (LinSum (map (\<lambda>d. b_var i d) (range_py m))) GE (LinConst L),
        Add (LinSum (map (\<lambda>d. b_var i d) (range_py m))) LE (LinConst H)])
       (range_py n))"

text \<open>Lines 79-83 (comment 4b).\<close>

definition window_coverage :: "int \<Rightarrow> int \<Rightarrow> constraint list" where
  "window_coverage n m =
     (let window_size = 3 * n in
      if m \<ge> window_size then
        concat (map (\<lambda>i. map (\<lambda>d.
          Add (LinSum (map (\<lambda>k. b_var i (d + k)) (range_py window_size))) GE (LinConst 1))
          (range_py (m - window_size + 1))) (range_py n))
      else [])"

text \<open>Lines 86-91 (comment 4c).\<close>

definition fair_weekends :: "int \<Rightarrow> nat \<Rightarrow> constraint list" where
  "fair_weekends n W =
     (if W > 0 then
        (let Lw = int W div n; Hw = (int W + n - 1) div n in
         concat (map (\<lambda>i.
           [Add (LinSum (map (\<lambda>k. w_var i k) (range_py (int W)))) GE (LinConst Lw),
            Add (LinSum (map (\<lambda>k. w_var i k) (range_py (int W)))) LE (LinConst Hw)])
           (range_py n)))
      else [])"

text \<open>
  Lines 16-91 of \<^verbatim>\<open>cp_sat_generate_schedule\<close>: the model handed to the solver, or the
  exception raised on the way, in the order the statements run: \<^verbatim>\<open>days.index(start_day)\<close>
  (line 18); \<^verbatim>\<open>NewIntVar(0, n-1, ...)\<close> for the first day, when there is one and \<open>n - 1\<close> is
  not a 64-bit integer (line 27); the disallowed pairs (line 66); \<^verbatim>\<open>m // n\<close> (line 69).
  The other integers handed to OR-Tools are doctor indices below \<open>n\<close>, the constants
  1 and 3, \<open>min(n, W)\<close> and the quotients of lines 69, 70, 87 and 88, which are no
  larger than the number of days. A domain \<open>[0, n - 1]\<close> with \<open>n < 1\<close> is empty and
  raises nothing. Python's \<^verbatim>\<open>//\<close> is floor
  division, as \<open>div\<close> on \<^typ>\<open>int\<close> is.
\<close>

definition cp_sat_model :: "int \<Rightarrow> int \<Rightarrow> string \<Rightarrow> (int \<times> int) list \<Rightarrow> py_error + cp_model" where
  "cp_sat_model n m start_day disallowed_pairs =
     (case list_index days start_day of
        Inl e \<Rightarrow> Inl e
      | Inr start_idx \<Rightarrow>
          (let fridays = weekend_fridays start_idx m; W = length fridays in
           if 0 < m \<and> \<not> is_int64 (n - 1) then Inl Int64Error
           else
             (case disallowed (day_vars m) disallowed_pairs of
                Inl e \<Rightarrow> Inl e
              | Inr dis \<Rightarrow>
                  if n = 0 then Inl ZeroDivisionError
                  else
                    (let L = m div n; H = (m + n - 1) div n in
                     Inr \<lparr>variables =
                            day_var_decls n m @ b_decls n m @ w_decls n fridays
                            @ weekend_used_decls n,
                          constraints =
                            b_links n m @ w_links n fridays @ no_four_consecutive n m
                            @ weekend_same_doctor fridays @ weekend_spread n W @ dis
                            @ fair_totals n m L H @ window_coverage n m
                            @ fair_weekends n W\<rparr>))))"

section \<open>The solver\<close>

text \<open>
  OR-Tools is not part of the repository. The code sets three parameters and reads two
  things back: the status of \<^verbatim>\<open>solver.Solve(model)\<close> and \<^verbatim>\<open>solver.Value\<close> of the day
  variables. The solver is therefore a parameter of the embedding: any function from
  the parameters and the model to a status and a valuation.
\<close>

datatype cp_status = UNKNOWN | MODEL_INVALID | FEASIBLE | INFEASIBLE | OPTIMAL

record solver_parameters =
  max_time_in_seconds :: int
  num_search_workers :: int
  random_seed :: "int option"

type_synonym valuation = "var \<Rightarrow> int"

type_synonym cp_solver = "solver_parameters \<Rightarrow> cp_model \<Rightarrow> cp_status \<times> valuation"

text \<open>
  \<^verbatim>\<open>cp_sat_generate_schedule\<close>, lines 14-104. \<open>random_seed = None\<close> leaves the solver's
  own seed in place (lines 97-98).
\<close>

definition cp_sat_generate_schedule ::
  "cp_solver \<Rightarrow> int \<Rightarrow> int \<Rightarrow> string \<Rightarrow> (int \<times> int) list \<Rightarrow> int \<Rightarrow> int \<Rightarrow> int option
   \<Rightarrow> py_error + int list" where
  "cp_sat_generate_schedule Solve n m start_day disallowed_pairs time_limit num_workers seed =
     (case cp_sat_model n m start_day disallowed_pairs of
        Inl e \<Rightarrow> Inl e
      | Inr model \<Rightarrow>
          (case Solve \<lparr>max_time_in_seconds = time_limit, num_search_workers = num_workers,
                       random_seed = seed\<rparr> model of
             (status, Value) \<Rightarrow>
               if status \<noteq> OPTIMAL \<and> status \<noteq> FEASIBLE
               then Inl (RuntimeError ''No valid schedule found.'')
               else Inr (map (\<lambda>d. Value (day_var d)) (range_py m))))"

section \<open>What a model means\<close>

text \<open>
  A valuation gives every variable an integer. A literal \<open>x\<close> holds when \<open>x\<close> is 1,
  \<^verbatim>\<open>x.Not()\<close> when \<open>x\<close> is 0. A linear constraint must hold when all its enforcement
  literals do. \<^verbatim>\<open>AddMaxEquality(t, xs)\<close> says that \<open>t\<close> is the largest value among \<open>xs\<close>:
  no listed value is above \<open>t\<close> and one of them equals it. The code also calls it with
  the empty list (when the month has no weekend block); what the solver makes of a
  maximum of nothing is not decided by the repository, so it is the parameter
  \<open>empty_max\<close>, a predicate on the value of the target: \<open>\<lambda>_. False\<close> for a solver that
  takes such a constraint to be unsatisfiable, \<open>\<lambda>v. v = 0\<close> for one that takes the
  maximum of nothing to be 0, \<open>\<lambda>_. True\<close> for one that ignores the constraint.
\<close>

fun eval_expr :: "valuation \<Rightarrow> linear_expr \<Rightarrow> int" where
  "eval_expr \<sigma> (LinVar x) = \<sigma> x"
| "eval_expr \<sigma> (LinConst c) = c"
| "eval_expr \<sigma> (LinSum xs) = sum_list (map \<sigma> xs)"

fun rel_holds :: "relation \<Rightarrow> int \<Rightarrow> int \<Rightarrow> bool" where
  "rel_holds EQ a b = (a = b)"
| "rel_holds NE a b = (a \<noteq> b)"
| "rel_holds LE a b = (a \<le> b)"
| "rel_holds GE a b = (a \<ge> b)"

fun lit_holds :: "valuation \<Rightarrow> literal \<Rightarrow> bool" where
  "lit_holds \<sigma> (Lit x) = (\<sigma> x = 1)"
| "lit_holds \<sigma> (NotLit x) = (\<sigma> x = 0)"

fun holds :: "(int \<Rightarrow> bool) \<Rightarrow> valuation \<Rightarrow> constraint \<Rightarrow> bool" where
  "holds empty_max \<sigma> (Linear ls a r b) =
     (if list_all (lit_holds \<sigma>) ls then rel_holds r (eval_expr \<sigma> a) (eval_expr \<sigma> b) else True)"
| "holds empty_max \<sigma> (MaxEquality t xs) =
     (if xs = [] then empty_max (\<sigma> t)
      else list_all (\<lambda>x. \<sigma> x \<le> \<sigma> t) xs \<and> list_ex (\<lambda>x. \<sigma> x = \<sigma> t) xs)"

fun in_domain :: "valuation \<Rightarrow> var \<times> int \<times> int \<Rightarrow> bool" where
  "in_domain \<sigma> (x, lb, ub) = (lb \<le> \<sigma> x \<and> \<sigma> x \<le> ub)"

definition satisfies :: "(int \<Rightarrow> bool) \<Rightarrow> valuation \<Rightarrow> cp_model \<Rightarrow> bool" where
  "satisfies empty_max \<sigma> M =
     (list_all (in_domain \<sigma>) (variables M) \<and> list_all (holds empty_max \<sigma>) (constraints M))"

text \<open>
  The one thing the properties below ask of the solver: when it reports \<^verbatim>\<open>OPTIMAL\<close> or
  \<^verbatim>\<open>FEASIBLE\<close>, the values it holds satisfy the model.
\<close>

definition solver_sound :: "(int \<Rightarrow> bool) \<Rightarrow> cp_solver \<Rightarrow> bool" where
  "solver_sound empty_max Solve =
     (\<forall>prm M. fst (Solve prm M) = OPTIMAL \<or> fst (Solve prm M) = FEASIBLE
        \<longrightarrow> satisfies empty_max (snd (Solve prm M)) M)"

text \<open>
  The valuation a schedule determines: the day variables take the schedule's values and
  every indicator the value its meaning gives it (\<open>fridays\<close> is the list of weekend
  Fridays).
\<close>

fun schedule_valuation :: "nat list \<Rightarrow> int list \<Rightarrow> valuation" where
  "schedule_valuation fridays s (day_var d) = s ! d"
| "schedule_valuation fridays s (b_var i d) = (if s ! d = int i then 1 else 0)"
| "schedule_valuation fridays s (w_var i k) = (if s ! (fridays ! k) = int i then 1 else 0)"
| "schedule_valuation fridays s (weekend_used_var i) =
     (if list_ex (\<lambda>d. s ! d = int i) fridays then 1 else 0)"

text \<open>
  A stand-in for the solver in concrete evaluations: it tries the one valuation it is
  given, reports \<^verbatim>\<open>FEASIBLE\<close> when that valuation satisfies the model and \<^verbatim>\<open>UNKNOWN\<close>
  (no answer within the budget) otherwise. \<open>fixed_status_solver\<close> is a solver that has
  already made up its mind.
\<close>

definition candidate_solver :: "(int \<Rightarrow> bool) \<Rightarrow> valuation \<Rightarrow> cp_solver" where
  "candidate_solver empty_max \<sigma> prm M =
     (if satisfies empty_max \<sigma> M then (FEASIBLE, \<sigma>) else (UNKNOWN, \<sigma>))"

definition fixed_status_solver :: "cp_status \<Rightarrow> cp_solver" where
  "fixed_status_solver st prm M = (st, (\<lambda>x. 0))"

section \<open>\<^verbatim>\<open>app.py\<close>: the caller\<close>

text \<open>
  \<^verbatim>\<open>int(day.split("/")[0])\<close> on an off-day option. \<^verbatim>\<open>split("/")[0]\<close> is the text before the
  first slash (the whole text when it has none). \<^verbatim>\<open>int\<close> of a text, for ASCII text as
  the options are: blanks at both ends are dropped, a sign may lead, and what is left
  must be decimal digits, with single underscores allowed between two digits, at most
  4300 digits (CPython's default limit); anything else is a \<^verbatim>\<open>ValueError\<close>.
\<close>

definition before_slash :: "string \<Rightarrow> string" where
  "before_slash day = takeWhile (\<lambda>c. c \<noteq> CHR ''/'') day"

definition digit_value :: "char \<Rightarrow> int" where
  "digit_value c = int (of_char c) - 48"

definition is_digit :: "char \<Rightarrow> bool" where
  "is_digit c = (48 \<le> (of_char c :: nat) \<and> (of_char c :: nat) \<le> 57)"

definition is_space :: "char \<Rightarrow> bool" where
  "is_space c = ((9 \<le> (of_char c :: nat) \<and> (of_char c :: nat) \<le> 13) \<or> (of_char c :: nat) = 32)"

definition strip :: "string \<Rightarrow> string" where
  "strip t = rev (dropWhile is_space (rev (dropWhile is_space t)))"

text \<open>Digits and underscores only, a digit first and last, no two underscores in a row.\<close>

definition digits_grouped :: "string \<Rightarrow> bool" where
  "digits_grouped t =
     (t \<noteq> [] \<and> is_digit (hd t) \<and> is_digit (last t)
      \<and> list_all (\<lambda>c. is_digit c \<or> c = CHR ''_'') t
      \<and> \<not> list_ex (\<lambda>(a, b). a = CHR ''_'' \<and> b = CHR ''_'') (zip t (tl t)))"

definition digits_value :: "string \<Rightarrow> int" where
  "digits_value t = foldl (\<lambda>acc c. 10 * acc + digit_value c) 0 (filter is_digit t)"

definition int_of_str :: "string \<Rightarrow> py_error + int" where
  "int_of_str t =
     (let u = strip t;
          negative = (u \<noteq> [] \<and> hd u = CHR ''-'');
          body = (if u \<noteq> [] \<and> (hd u = CHR ''-'' \<or> hd u = CHR ''+'') then tl u else u)
      in if digits_grouped body \<and> length (filter is_digit body) \<le> 4300
         then Inr (if negative then - digits_value body else digits_value body)
         else Inl ValueError)"

text \<open>
  Line 135, the comprehension that turns the selected off-days into pairs.
  \<open>off_days\<close> is the dictionary of line 115 in insertion order: doctor index and the
  options selected for that doctor. Each pair is
  \<^verbatim>\<open>(int(day.split("/")[0]) - 1, doctor_index)\<close>.
\<close>

fun off_day_pairs :: "int \<Rightarrow> string list \<Rightarrow> py_error + (int \<times> int) list" where
  "off_day_pairs doctor_index [] = Inr []"
| "off_day_pairs doctor_index (day # ds) =
     (case int_of_str (before_slash day) of
        Inl e \<Rightarrow> Inl e
      | Inr k \<Rightarrow>
          (case off_day_pairs doctor_index ds of
             Inl e \<Rightarrow> Inl e
           | Inr ps \<Rightarrow> Inr ((k - 1, doctor_index) # ps)))"

fun app_disallowed_pairs :: "(int \<times> string list) list \<Rightarrow> py_error + (int \<times> int) list" where
  "app_disallowed_pairs [] = Inr []"
| "app_disallowed_pairs ((doctor_index, ds) # rest) =
     (case off_day_pairs doctor_index ds of
        Inl e \<Rightarrow> Inl e
      | Inr ps \<Rightarrow>
          (case app_disallowed_pairs rest of
             Inl e \<Rightarrow> Inl e
           | Inr qs \<Rightarrow> Inr (ps @ qs)))"

text \<open>
  \<^verbatim>\<open>generate_schedule\<close>, lines 12-20: the weekday name, the call of the core with its
  default \<^verbatim>\<open>time_limit=10, num_workers=8, random_seed=None\<close>, and the schedule kept
  (an empty solution is falsy in Python and leaves the list of -1). The calendar grid
  built from the schedule afterwards (lines 22-39) is display only and is not modelled.
\<close>

definition weekdays :: "string list" where
  "weekdays = [''Sunday'', ''Monday'', ''Tuesday'', ''Wednesday'', ''Thursday'', ''Friday'',
               ''Saturday'']"

definition generate_schedule ::
  "cp_solver \<Rightarrow> int \<Rightarrow> int \<Rightarrow> int \<Rightarrow> (int \<times> int) list \<Rightarrow> py_error + int list" where
  "generate_schedule Solve num_doctors days_in_month starting_day disallowed_pairs =
     (case list_getitem weekdays starting_day of
        Inl e \<Rightarrow> Inl e
      | Inr starting_day_name \<Rightarrow>
          (case cp_sat_generate_schedule Solve num_doctors days_in_month starting_day_name
                  disallowed_pairs 10 8 None of
             Inl e \<Rightarrow> Inl e
           | Inr solution \<Rightarrow>
               Inr (if solution \<noteq> [] then solution
                    else replicate (nat days_in_month) (- 1))))"

text \<open>Lines 132-139: the handler of the "Generate Schedule" button.\<close>

definition generate_button ::
  "cp_solver \<Rightarrow> int \<Rightarrow> int \<Rightarrow> int \<Rightarrow> (int \<times> string list) list \<Rightarrow> py_error + int list" where
  "generate_button Solve num_doctors days_in_month starting_day off_days =
     (case app_disallowed_pairs off_days of
        Inl e \<Rightarrow> Inl e
      | Inr disallowed_pairs \<Rightarrow>
          generate_schedule Solve num_doctors days_in_month starting_day disallowed_pairs)"

section \<open>The first entry of \<^verbatim>\<open>examples\<close> (\<^verbatim>\<open>cp_sat.py\<close>, lines 108-127)\<close>

definition example1_disallowed_pairs :: "(int \<times> int) list" where
  "example1_disallowed_pairs =
     [(0, 5), (0, 12), (0, 19), (0, 26),
      (2, 2), (2, 9), (2, 16), (2, 23), (2, 4), (2, 11), (2, 18), (2, 25),
      (1, 0), (1, 1), (1, 28), (1, 29)]"



section \<open>Notions used to state the properties\<close>

text \<open>
  \<open>day_index_ok m d\<close>: \<open>d\<close> is an index Python accepts for the list \<open>day_vars\<close>
  (of length \<open>m\<close>, or 0 when \<open>m\<close> is negative); \<open>day_position m d\<close> is the position it
  denotes.
\<close>

definition day_index_ok :: "int \<Rightarrow> int \<Rightarrow> bool" where
  "day_index_ok m d = (- int (nat m) \<le> d \<and> d < int (nat m))"

definition day_position :: "int \<Rightarrow> int \<Rightarrow> nat" where
  "day_position m d = (if d < 0 then nat (int (nat m) + d) else nat d)"

text \<open>
  \<open>pair_ok m p\<close>: line 66 raises nothing on the pair \<open>p\<close>, whose second component is
  an index of \<open>day_vars\<close> and whose first fits a 64-bit integer.
\<close>

definition pair_ok :: "int \<Rightarrow> int \<times> int \<Rightarrow> bool" where
  "pair_ok m p = (day_index_ok m (snd p) \<and> is_int64 (fst p))"

text \<open>The constraint line 50 adds for doctor \<open>i\<close> and the window that starts at day \<open>d\<close>.\<close>

definition run_constraint :: "nat \<Rightarrow> nat \<Rightarrow> constraint" where
  "run_constraint i d =
     Add (LinSum [b_var i d, b_var i (d + 1), b_var i (d + 2), b_var i (d + 3)]) LE (LinConst 3)"

text \<open>The list line 104 returns, read off a valuation.\<close>

definition schedule_of :: "valuation \<Rightarrow> int \<Rightarrow> int list" where
  "schedule_of \<sigma> m = map (\<lambda>d. \<sigma> (day_var d)) (range_py m)"

text \<open>
  The doctors who cover a weekend block of the schedule \<open>s\<close>: those assigned both the
  Friday and the Saturday of one.
\<close>

definition weekend_doctors :: "nat list \<Rightarrow> int list \<Rightarrow> int set" where
  "weekend_doctors fridays s =
     set (map (\<lambda>d. s ! d) (filter (\<lambda>d. s ! d = s ! (d + 1)) fridays))"

text \<open>
  A schedule that the model of the first example accepts (lemma \<open>example1_run\<close>); it
  serves as a concrete input.
\<close>

definition example1_feasible_schedule :: "int list" where
  "example1_feasible_schedule =
     [0, 0,
      1, 2, 0, 1, 2, 1, 1,
      0, 2, 0, 1, 0, 2, 2,
      0, 1, 0, 2, 0, 1, 1,
      0, 2, 1, 2, 1, 2, 2]"

text \<open>
  A schedule for two doctors and 30 days from a Friday in which doctor 0 is off on the
  first two days (lemma \<open>two_doctor_run\<close>); it serves as a concrete input.
\<close>

definition two_doctor_schedule :: "int list" where
  "two_doctor_schedule =
     [1, 1,
      0, 0, 1, 0, 1, 0, 0,
      1, 1, 0, 0, 0, 1, 1,
      0, 0, 1, 0, 1, 0, 0,
      1, 1, 0, 1, 0, 1, 1]"

section \<open>The invariants of the specification\<close>

text \<open>
  Invariants 1 to 8 of the specification, as predicates on a schedule \<open>s\<close> (the list the
  call returns), in the specification's words. The last section compares them with
  the model the code builds.
\<close>

text \<open>Invariant 1 and the output format: one doctor of \<open>[0, n)\<close> for each of the \<open>m\<close> days.\<close>

definition assignment_ok :: "int \<Rightarrow> int \<Rightarrow> int list \<Rightarrow> bool" where
  "assignment_ok n m s = (length s = nat m \<and> list_all (\<lambda>x. 0 \<le> x \<and> x < n) s)"

text \<open>Invariant 2: no doctor on a day of a disallowed pair. The day of a pair \<open>(i, d)\<close> is
  \<open>d\<close> itself for \<open>0 \<le> d < m\<close>; for the negative indices the code accepts it is \<open>m + d\<close>.\<close>

definition forbidden_days_ok :: "int \<Rightarrow> (int \<times> int) list \<Rightarrow> int list \<Rightarrow> bool" where
  "forbidden_days_ok m ps s = list_all (\<lambda>(i, d). s ! day_position m d \<noteq> i) ps"

text \<open>Invariant 3: no four consecutive days with the same doctor.\<close>

definition no_long_run :: "int list \<Rightarrow> bool" where
  "no_long_run s =
     list_all (\<lambda>d. \<not> (s ! d = s ! (d + 1) \<and> s ! (d + 1) = s ! (d + 2) \<and> s ! (d + 2) = s ! (d + 3)))
       [0..<length s - 3]"

text \<open>Invariant 4: the same doctor on the Friday and the Saturday of every weekend block.\<close>

definition weekend_pairing :: "nat list \<Rightarrow> int list \<Rightarrow> bool" where
  "weekend_pairing fridays s = list_all (\<lambda>d. s ! d = s ! (d + 1)) fridays"

text \<open>Invariant 5: the doctors who cover a weekend block number exactly \<open>min(n, W)\<close>.\<close>

definition weekend_spread_equal :: "int \<Rightarrow> nat list \<Rightarrow> int list \<Rightarrow> bool" where
  "weekend_spread_equal n fridays s =
     (int (card (weekend_doctors fridays s)) = min n (int (length fridays)))"

text \<open>Invariant 6: every doctor has between \<open>floor(m/n)\<close> and \<open>ceil(m/n)\<close> days.\<close>

definition load_fair :: "int \<Rightarrow> int \<Rightarrow> int list \<Rightarrow> bool" where
  "load_fair n m s =
     list_all (\<lambda>i. m div n \<le> int (count_list s (int i))
                \<and> int (count_list s (int i)) \<le> - ((- m) div n)) (range_py n)"

text \<open>Invariant 7: when \<open>m \<ge> 3n\<close>, every doctor appears in every window of \<open>3n\<close> days.\<close>

definition window_covered :: "int \<Rightarrow> int \<Rightarrow> int list \<Rightarrow> bool" where
  "window_covered n m s =
     (if 3 * n \<le> m
      then list_all (\<lambda>d. list_all (\<lambda>i. int i \<in> set (take (nat (3 * n)) (drop d s))) (range_py n))
             (range_py (m - 3 * n + 1))
      else True)"

text \<open>The number of weekend blocks doctor \<open>i\<close> covers.\<close>

definition weekend_blocks :: "nat list \<Rightarrow> int list \<Rightarrow> int \<Rightarrow> nat" where
  "weekend_blocks fridays s i = length (filter (\<lambda>d. s ! d = i \<and> s ! (d + 1) = i) fridays)"

text \<open>Invariant 8: when there is a weekend block, every doctor covers between
  \<open>floor(W/n)\<close> and \<open>ceil(W/n)\<close> of them.\<close>

definition weekend_fair :: "int \<Rightarrow> nat list \<Rightarrow> int list \<Rightarrow> bool" where
  "weekend_fair n fridays s =
     (if fridays \<noteq> []
      then list_all (\<lambda>i. int (length fridays) div n \<le> int (weekend_blocks fridays s (int i))
                     \<and> int (weekend_blocks fridays s (int i)) \<le> - ((- int (length fridays)) div n))
             (range_py n)
      else True)"

text \<open>Invariants 1 to 8 together.\<close>

definition schedule_valid :: "int \<Rightarrow> int \<Rightarrow> nat list \<Rightarrow> (int \<times> int) list \<Rightarrow> int list \<Rightarrow> bool" where
  "schedule_valid n m fridays ps s =
     (assignment_ok n m s \<and> forbidden_days_ok m ps s \<and> no_long_run s
      \<and> weekend_pairing fridays s \<and> weekend_spread_equal n fridays s \<and> load_fair n m s
      \<and> window_covered n m s \<and> weekend_fair n fridays s)"

section \<open>Variables of a model\<close>

text \<open>The variables a constraint mentions, and the variables the model declares.\<close>

fun expr_vars :: "linear_expr \<Rightarrow> var set" where
  "expr_vars (LinVar x) = {x}"
| "expr_vars (LinConst c) = {}"
| "expr_vars (LinSum xs) = set xs"

fun lit_var :: "literal \<Rightarrow> var" where
  "lit_var (Lit x) = x"
| "lit_var (NotLit x) = x"

fun constraint_vars :: "constraint \<Rightarrow> var set" where
  "constraint_vars (Linear ls a r b) = lit_var ` set ls \<union> expr_vars a \<union> expr_vars b"
| "constraint_vars (MaxEquality t xs) = insert t (set xs)"

definition declared_vars :: "int \<Rightarrow> int \<Rightarrow> nat \<Rightarrow> var set" where
  "declared_vars n m W =
     {day_var d | d. int d < m} \<union> {b_var i d | i d. int i < n \<and> int d < m}
     \<union> {w_var i k | i k. int i < n \<and> k < W} \<union> {weekend_used_var i | i. int i < n}"

section \<open>Basic facts\<close>

lemma index_Friday: "list_index days ''Friday'' = Inr 4"
  by (simp add: days_def)

lemma in_range_py [simp]: "i \<in> set (range_py k) \<longleftrightarrow> int i < k"
  by (auto simp: range_py_def)

lemma list_all_concat_map:
  "list_all P (concat (map f xs)) = (\<forall>x. x \<in> set xs \<longrightarrow> list_all P (f x))"
  by (induction xs) auto

lemma list_all_map_iff: "list_all P (map f xs) = (\<forall>x. x \<in> set xs \<longrightarrow> P (f x))"
  by (induction xs) auto

lemma sum_map_range_py:
  "sum_list (map g (range_py k)) = sum_list (map g [0..<nat k])"
  by (simp add: range_py_def)

lemmas sem_simps = list_all_concat_map list_all_map_iff sum_map_range_py Add_def comp_def

lemma length_range_py [simp]: "length (range_py k) = nat k"
  by (simp add: range_py_def)

lemma length_day_vars [simp]: "length (day_vars m) = nat m"
  by (simp add: day_vars_def)

lemma nth_day_vars [simp]: "int d < m \<Longrightarrow> day_vars m ! d = day_var d"
  by (simp add: day_vars_def range_py_def)

lemma weekend_fridays_mem:
  "d \<in> set (weekend_fridays start_idx m) \<longleftrightarrow> (start_idx + d) mod 7 = 4 \<and> int d + 1 < m"
  by (auto simp: weekend_fridays_def)

lemma cp_sat_model_InrE:
  assumes "cp_sat_model n m start_day ps = Inr M"
  obtains start_idx dis where
    "list_index days start_day = Inr start_idx"
    "disallowed (day_vars m) ps = Inr dis"
    "n \<noteq> 0"
    "variables M = day_var_decls n m @ b_decls n m
        @ w_decls n (weekend_fridays start_idx m) @ weekend_used_decls n"
    "constraints M = b_links n m @ w_links n (weekend_fridays start_idx m)
        @ no_four_consecutive n m @ weekend_same_doctor (weekend_fridays start_idx m)
        @ weekend_spread n (length (weekend_fridays start_idx m)) @ dis
        @ fair_totals n m (m div n) ((m + n - 1) div n) @ window_coverage n m
        @ fair_weekends n (length (weekend_fridays start_idx m))"
  using assms
  by (auto simp: cp_sat_model_def Let_def split: sum.splits if_splits)

lemma day_decls_sem:
  "list_all (in_domain \<sigma>) (day_var_decls n m) \<longleftrightarrow>
     (\<forall>d. int d < m \<longrightarrow> 0 \<le> \<sigma> (day_var d) \<and> \<sigma> (day_var d) \<le> n - 1)"
  by (simp add: day_var_decls_def NewIntVar_def sem_simps)

lemma b_decls_sem:
  "list_all (in_domain \<sigma>) (b_decls n m) \<longleftrightarrow>
     (\<forall>i d. int i < n \<and> int d < m \<longrightarrow> 0 \<le> \<sigma> (b_var i d) \<and> \<sigma> (b_var i d) \<le> 1)"
  by (auto simp: b_decls_def NewBoolVar_def sem_simps)

lemma w_decls_sem:
  "list_all (in_domain \<sigma>) (w_decls n fr) \<longleftrightarrow>
     (\<forall>i k. int i < n \<and> k < length fr \<longrightarrow> 0 \<le> \<sigma> (w_var i k) \<and> \<sigma> (w_var i k) \<le> 1)"
  by (auto simp: w_decls_def NewBoolVar_def sem_simps)

lemma weekend_used_decls_sem:
  "list_all (in_domain \<sigma>) (weekend_used_decls n) \<longleftrightarrow>
     (\<forall>i. int i < n \<longrightarrow> 0 \<le> \<sigma> (weekend_used_var i) \<and> \<sigma> (weekend_used_var i) \<le> 1)"
  by (simp add: weekend_used_decls_def NewBoolVar_def sem_simps)

lemma b_links_sem:
  "list_all (holds em \<sigma>) (b_links n m) \<longleftrightarrow>
     (\<forall>i d. int i < n \<and> int d < m \<longrightarrow>
        (\<sigma> (b_var i d) = 1 \<longrightarrow> \<sigma> (day_var d) = int i) \<and>
        (\<sigma> (b_var i d) = 0 \<longrightarrow> \<sigma> (day_var d) \<noteq> int i))"
  by (auto simp: b_links_def sem_simps)

lemma w_links_sem:
  "list_all (holds em \<sigma>) (w_links n fr) \<longleftrightarrow>
     (\<forall>i k. int i < n \<and> k < length fr \<longrightarrow>
        (\<sigma> (w_var i k) = 1 \<longrightarrow>
           \<sigma> (day_var (fr ! k)) = int i \<and> \<sigma> (day_var (fr ! k + 1)) = int i) \<and>
        (\<sigma> (w_var i k) = 0 \<longrightarrow> \<sigma> (day_var (fr ! k)) \<noteq> int i))"
proof -
  have "list_all (holds em \<sigma>) (w_links n fr) \<longleftrightarrow>
     (\<forall>i k. int i < n \<and> k < length fr \<longrightarrow>
        holds em \<sigma> (OnlyEnforceIf (Add (LinVar (day_var (fr ! k))) EQ (LinConst (int i))) (Lit (w_var i k))) \<and>
        holds em \<sigma> (OnlyEnforceIf (Add (LinVar (day_var (fr ! k + 1))) EQ (LinConst (int i))) (Lit (w_var i k))) \<and>
        holds em \<sigma> (OnlyEnforceIf (Add (LinVar (day_var (fr ! k))) NE (LinConst (int i))) (NotLit (w_var i k))))"
    by (simp add: w_links_def list_all_concat_map list_all_map_iff in_set_enumerate_eq) blast
  then show ?thesis by (auto simp: Add_def)
qed

lemma range_py_4: "range_py 4 = [0, 1, 2, 3]"
  by (simp add: range_py_def upt_rec)

lemma no_four_sem:
  "list_all (holds em \<sigma>) (no_four_consecutive n m) \<longleftrightarrow>
     (\<forall>i d. int i < n \<and> int d < m - 3 \<longrightarrow>
        \<sigma> (b_var i d) + \<sigma> (b_var i (d + 1)) + \<sigma> (b_var i (d + 2)) + \<sigma> (b_var i (d + 3)) \<le> 3)"
  by (auto simp: no_four_consecutive_def list_all_concat_map list_all_map_iff Add_def range_py_4 add.assoc)

lemma weekend_same_sem:
  "list_all (holds em \<sigma>) (weekend_same_doctor fr) \<longleftrightarrow>
     (\<forall>d \<in> set fr. \<sigma> (day_var d) = \<sigma> (day_var (d + 1)))"
  by (auto simp: weekend_same_doctor_def sem_simps)

lemma weekend_spread_sem:
  "list_all (holds em \<sigma>) (weekend_spread n W) \<longleftrightarrow>
     (\<forall>i. int i < n \<longrightarrow> holds em \<sigma> (MaxEquality (weekend_used_var i) (map (w_var i) [0..<W])))
     \<and> sum_list (map (\<lambda>i. \<sigma> (weekend_used_var i)) [0..<nat n]) = min n (int W)"
  by (auto simp: weekend_spread_def weekend_used_def sem_simps range_py_def comp_def)

lemma fair_totals_sem:
  "list_all (holds em \<sigma>) (fair_totals n m L H) \<longleftrightarrow>
     (\<forall>i. int i < n \<longrightarrow> L \<le> sum_list (map (\<lambda>d. \<sigma> (b_var i d)) [0..<nat m])
         \<and> sum_list (map (\<lambda>d. \<sigma> (b_var i d)) [0..<nat m]) \<le> H)"
  by (auto simp: fair_totals_def sem_simps)

lemma window_sem:
  "list_all (holds em \<sigma>) (window_coverage n m) \<longleftrightarrow>
     (m \<ge> 3 * n \<longrightarrow> (\<forall>i d. int i < n \<and> int d < m - 3 * n + 1 \<longrightarrow>
         1 \<le> sum_list (map (\<lambda>k. \<sigma> (b_var i (d + k))) [0..<nat (3 * n)])))"
  by (auto simp: window_coverage_def sem_simps Let_def)

lemma fair_weekends_sem:
  "list_all (holds em \<sigma>) (fair_weekends n W) \<longleftrightarrow>
     (W > 0 \<longrightarrow> (\<forall>i. int i < n \<longrightarrow>
         int W div n \<le> sum_list (map (\<lambda>k. \<sigma> (w_var i k)) [0..<W])
         \<and> sum_list (map (\<lambda>k. \<sigma> (w_var i k)) [0..<W]) \<le> (int W + n - 1) div n))"
  by (auto simp: fair_weekends_def sem_simps Let_def)

lemma list_getitem_day_vars:
  "list_getitem (day_vars m) d =
     (if day_index_ok m d then Inr (day_var (day_position m d)) else Inl IndexError)"
  by (auto simp: list_getitem_def day_index_ok_def day_position_def)

lemma disallowed_Inr:
  "disallowed (day_vars m) ps = Inr cs \<longleftrightarrow>
     list_all (pair_ok m) ps \<and>
     cs = map (\<lambda>(i, d). Add (LinVar (day_var (day_position m d))) NE (LinConst i)) ps"
proof (induction ps arbitrary: cs)
  case Nil
  show ?case by auto
next
  case (Cons p ps)
  obtain i d where p: "p = (i, d)" by (cases p)
  show ?case
  proof (cases "pair_ok m (i, d)")
    case False
    then show ?thesis by (auto simp: p list_getitem_day_vars pair_ok_def)
  next
    case True
    then have ok: "day_index_ok m d" "is_int64 i" by (simp_all add: pair_ok_def)
    show ?thesis
    proof (cases "disallowed (day_vars m) ps")
      case (Inl e)
      then have "\<not> list_all (pair_ok m) ps"
        using Cons.IH by (metis sum.distinct(1))
      with Inl ok show ?thesis by (simp add: p list_getitem_day_vars)
    next
      case (Inr cs')
      with Cons.IH[of cs'] ok True show ?thesis
        by (auto simp: p list_getitem_day_vars)
    qed
  qed
qed


lemma faulty_pair_split:
  assumes "\<not> list_all (pair_ok m) ps"
  obtains qs i d rs where "ps = qs @ (i, d) # rs" and "list_all (pair_ok m) qs"
    and "\<not> pair_ok m (i, d)"
proof -
  from assms have "\<exists>p\<in>set ps. \<not> pair_ok m p" by (simp add: list_all_iff)
  then obtain qs p rs where "ps = qs @ p # rs" "\<not> pair_ok m p" "\<forall>q\<in>set qs. pair_ok m q"
    using split_list_first_prop[of ps "\<lambda>p. \<not> pair_ok m p"] by auto
  then show thesis using that[of qs "fst p" "snd p" rs] by (simp add: list_all_iff)
qed

lemma disallowed_sem:
  "disallowed (day_vars m) ps = Inr cs \<Longrightarrow>
   list_all (holds em \<sigma>) cs \<longleftrightarrow> list_all (\<lambda>(i, d). \<sigma> (day_var (day_position m d)) \<noteq> i) ps"
  by (auto simp: disallowed_Inr list_all_iff Add_def)

lemma list_index_Inr_iff: "(\<exists>k. list_index xs x = Inr k) \<longleftrightarrow> x \<in> set xs"
  by (induction xs) (auto split: sum.splits)


lemma list_index_less: "list_index xs x = Inr k \<Longrightarrow> k < length xs \<and> xs ! k = x"
  by (induction xs arbitrary: k) (auto split: sum.splits if_splits)

lemma cp_sat_model_unfold:
  assumes "start_day \<in> set days"
  shows "cp_sat_model n m start_day ps =
     (if 0 < m \<and> \<not> is_int64 (n - 1) then Inl Int64Error
      else case disallowed (day_vars m) ps of
             Inl e \<Rightarrow> Inl e
           | Inr dis \<Rightarrow>
               if n = 0 then Inl ZeroDivisionError
               else Inr (projr (cp_sat_model n m start_day ps)))"
proof -
  from assms obtain k where "list_index days start_day = Inr k"
    using list_index_Inr_iff by fastforce
  then show ?thesis
    by (simp add: cp_sat_model_def Let_def split: sum.splits)
qed


lemma generate_not_solved:
  assumes "cp_sat_model n m sd ps = Inr M"
    and "fst (Solve \<lparr>max_time_in_seconds = tlim, num_search_workers = nw, random_seed = seed\<rparr> M) \<noteq> OPTIMAL"
    and "fst (Solve \<lparr>max_time_in_seconds = tlim, num_search_workers = nw, random_seed = seed\<rparr> M) \<noteq> FEASIBLE"
  shows "cp_sat_generate_schedule Solve n m sd ps tlim nw seed =
           Inl (RuntimeError ''No valid schedule found.'')"
  using assms by (auto simp: cp_sat_generate_schedule_def split: prod.splits)

lemma days_simps: "list_index days ''Monday'' = Inr 0" "list_index days ''Friday'' = Inr 4" "list_index days ''Sunday'' = Inr 6"
  by (simp_all add: days_def)





lemma satisfies_sections:
  assumes "cp_sat_model n m sd ps = Inr M" and "list_index days sd = Inr si"
  shows "satisfies em \<sigma> M \<longleftrightarrow>
     list_all (in_domain \<sigma>) (day_var_decls n m) \<and>
     list_all (in_domain \<sigma>) (b_decls n m) \<and>
     list_all (in_domain \<sigma>) (w_decls n (weekend_fridays si m)) \<and>
     list_all (in_domain \<sigma>) (weekend_used_decls n) \<and>
     list_all (holds em \<sigma>) (b_links n m) \<and>
     list_all (holds em \<sigma>) (w_links n (weekend_fridays si m)) \<and>
     list_all (holds em \<sigma>) (no_four_consecutive n m) \<and>
     list_all (holds em \<sigma>) (weekend_same_doctor (weekend_fridays si m)) \<and>
     list_all (holds em \<sigma>) (weekend_spread n (length (weekend_fridays si m))) \<and>
     list_all (\<lambda>(i, d). \<sigma> (day_var (day_position m d)) \<noteq> i) ps \<and>
     list_all (holds em \<sigma>) (fair_totals n m (m div n) ((m + n - 1) div n)) \<and>
     list_all (holds em \<sigma>) (window_coverage n m) \<and>
     list_all (holds em \<sigma>) (fair_weekends n (length (weekend_fridays si m)))"
proof -
  from assms obtain dis where dis: "disallowed (day_vars m) ps = Inr dis"
    and vars: "variables M = day_var_decls n m @ b_decls n m
        @ w_decls n (weekend_fridays si m) @ weekend_used_decls n"
    and cts: "constraints M = b_links n m @ w_links n (weekend_fridays si m)
        @ no_four_consecutive n m @ weekend_same_doctor (weekend_fridays si m)
        @ weekend_spread n (length (weekend_fridays si m)) @ dis
        @ fair_totals n m (m div n) ((m + n - 1) div n) @ window_coverage n m
        @ fair_weekends n (length (weekend_fridays si m))"
    by (auto elim!: cp_sat_model_InrE)
  show ?thesis
    unfolding satisfies_def vars cts list_all_append disallowed_sem[OF dis]
    by blast
qed

lemma generate_Inr:
  assumes "cp_sat_generate_schedule Solve n m sd ps tlim nw seed = Inr s"
  obtains M where "cp_sat_model n m sd ps = Inr M"
    and "fst (Solve \<lparr>max_time_in_seconds = tlim, num_search_workers = nw, random_seed = seed\<rparr> M) = OPTIMAL
       \<or> fst (Solve \<lparr>max_time_in_seconds = tlim, num_search_workers = nw, random_seed = seed\<rparr> M) = FEASIBLE"
    and "s = map (\<lambda>d. snd (Solve \<lparr>max_time_in_seconds = tlim, num_search_workers = nw, random_seed = seed\<rparr> M) (day_var d)) (range_py m)"
  using assms
  by (auto simp: cp_sat_generate_schedule_def split: sum.splits prod.splits if_splits)

lemma generate_sound:
  assumes "solver_sound em Solve"
    and "cp_sat_generate_schedule Solve n m sd ps tlim nw seed = Inr s"
  obtains M \<sigma> where "cp_sat_model n m sd ps = Inr M" and "satisfies em \<sigma> M"
    and "s = map (\<lambda>d. \<sigma> (day_var d)) (range_py m)"
proof -
  from assms(2) obtain M where M: "cp_sat_model n m sd ps = Inr M"
    and st: "fst (Solve \<lparr>max_time_in_seconds = tlim, num_search_workers = nw, random_seed = seed\<rparr> M) = OPTIMAL
       \<or> fst (Solve \<lparr>max_time_in_seconds = tlim, num_search_workers = nw, random_seed = seed\<rparr> M) = FEASIBLE"
    and s: "s = map (\<lambda>d. snd (Solve \<lparr>max_time_in_seconds = tlim, num_search_workers = nw, random_seed = seed\<rparr> M) (day_var d)) (range_py m)"
    by (rule generate_Inr)
  from assms(1) st have "satisfies em (snd (Solve \<lparr>max_time_in_seconds = tlim, num_search_workers = nw, random_seed = seed\<rparr> M)) M"
    unfolding solver_sound_def by blast
  with M s show thesis using that by blast
qed

lemma candidate_solver_sound: "solver_sound em (candidate_solver em \<sigma>)"
  by (simp add: solver_sound_def candidate_solver_def)

lemma model_start_index:
  assumes "cp_sat_model n m sd ps = Inr M"
  obtains si where "list_index days sd = Inr si"
  using assms by (auto elim: cp_sat_model_InrE)

lemma disallowed_append:
  "disallowed dvs (ps @ qs) =
     (case disallowed dvs ps of Inl e \<Rightarrow> Inl e
      | Inr cs \<Rightarrow> (case disallowed dvs qs of Inl e \<Rightarrow> Inl e | Inr ds \<Rightarrow> Inr (cs @ ds)))"
  by (induction dvs ps rule: disallowed.induct) (auto split: sum.splits)

lemma list_getitem_negative:
  assumes "- m \<le> d" and "d < 0"
  shows "list_getitem (day_vars m) d = Inr (day_var (nat (m + d)))"
    and "list_getitem (day_vars m) (m + d) = Inr (day_var (nat (m + d)))"
  using assms by (auto simp: list_getitem_day_vars day_index_ok_def day_position_def)

lemma model_negative_day:
  assumes "- m \<le> d" and "d < 0"
  shows "cp_sat_model n m sd (ps @ (i, d) # qs) = cp_sat_model n m sd (ps @ (i, m + d) # qs)"
proof -
  have "disallowed (day_vars m) ((i, d) # qs) = disallowed (day_vars m) ((i, m + d) # qs)"
    by (simp add: list_getitem_negative[OF assms])
  then have "disallowed (day_vars m) (ps @ (i, d) # qs) = disallowed (day_vars m) (ps @ (i, m + d) # qs)"
    by (simp only: disallowed_append)
  then show ?thesis unfolding cp_sat_model_def by (rule arg_cong)
qed

lemma negative_day_index_helper:
  assumes "- m \<le> d" and "d < 0"
  shows "list_getitem (day_vars m) d = Inr (day_var (nat (m + d)))
     \<and> cp_sat_model n m sd (ps @ (i, d) # qs) = cp_sat_model n m sd (ps @ (i, m + d) # qs)
     \<and> cp_sat_generate_schedule Solve n m sd (ps @ (i, d) # qs) tlim nw seed
        = cp_sat_generate_schedule Solve n m sd (ps @ (i, m + d) # qs) tlim nw seed
     \<and> (solver_sound em Solve \<longrightarrow>
          (\<forall>s. cp_sat_generate_schedule Solve n m sd (ps @ (i, d) # qs) tlim nw seed = Inr s
             \<longrightarrow> s ! nat (m + d) \<noteq> i))"
proof -
  have eq: "cp_sat_model n m sd (ps @ (i, d) # qs) = cp_sat_model n m sd (ps @ (i, m + d) # qs)"
    by (rule model_negative_day[OF assms])
  have excl: "s ! nat (m + d) \<noteq> i"
    if snd: "solver_sound em Solve"
      and run: "cp_sat_generate_schedule Solve n m sd (ps @ (i, d) # qs) tlim nw seed = Inr s" for s
  proof -
    from snd run obtain M \<sigma> where M: "cp_sat_model n m sd (ps @ (i, d) # qs) = Inr M"
      and sat: "satisfies em \<sigma> M" and s: "s = map (\<lambda>d. \<sigma> (day_var d)) (range_py m)"
      by (rule generate_sound)
    from M obtain si where si: "list_index days sd = Inr si" by (rule model_start_index)
    from sat have "\<sigma> (day_var (day_position m d)) \<noteq> i"
      by (simp add: satisfies_sections[OF M si])
    moreover have "day_position m d = nat (m + d)" "nat (m + d) < nat m"
      using assms by (auto simp: day_position_def)
    ultimately show ?thesis by (simp add: s range_py_def)
  qed
  show ?thesis
    using eq excl list_getitem_negative(1)[OF assms]
    by (simp add: cp_sat_generate_schedule_def)
qed

lemma run_constraint_no_four:
  "run_constraint i d \<in> set (no_four_consecutive n m) \<longleftrightarrow> int i < n \<and> int d + 3 < m"
proof
  assume "run_constraint i d \<in> set (no_four_consecutive n m)"
  then show "int i < n \<and> int d + 3 < m"
    by (auto simp: run_constraint_def no_four_consecutive_def range_py_4 Add_def)
next
  assume a: "int i < n \<and> int d + 3 < m"
  then have "i \<in> set (range_py n)" "d \<in> set (range_py (m - 3))"
    by simp_all
  then have "Add (LinSum (map (\<lambda>k. b_var i (d + k)) (range_py 4))) LE (LinConst 3)
      \<in> set (no_four_consecutive n m)"
    by (simp add: no_four_consecutive_def) (rule bexI[of _ i], rule image_eqI[of _ _ d], simp_all)
  then show "run_constraint i d \<in> set (no_four_consecutive n m)"
    by (simp add: run_constraint_def range_py_4)
qed

lemma run_constraint_not_b_links: "run_constraint i d \<notin> set (b_links n m)"
  by (auto simp: run_constraint_def b_links_def Add_def)

lemma run_constraint_not_w_links: "run_constraint i d \<notin> set (w_links n fr)"
  by (auto simp: run_constraint_def w_links_def Add_def)

lemma run_constraint_not_same: "run_constraint i d \<notin> set (weekend_same_doctor fr)"
  by (auto simp: run_constraint_def weekend_same_doctor_def Add_def)

lemma run_constraint_not_spread: "run_constraint i d \<notin> set (weekend_spread n W)"
  by (auto simp: run_constraint_def weekend_spread_def Add_def)

lemma run_constraint_not_disallowed:
  "disallowed (day_vars m) ps = Inr dis \<Longrightarrow> run_constraint i d \<notin> set dis"
  by (auto simp: run_constraint_def disallowed_Inr Add_def)

lemma run_constraint_not_window: "run_constraint i d \<notin> set (window_coverage n m)"
  by (auto simp: run_constraint_def window_coverage_def Add_def Let_def)

lemma run_constraint_not_fair_weekends: "run_constraint i d \<notin> set (fair_weekends n W)"
  by (auto simp: run_constraint_def fair_weekends_def Add_def Let_def)

lemma ceil_four_not_three:
  assumes "n \<noteq> 0"
  shows "(4 + n - 1) div n \<noteq> (3::int)"
proof -
  have "(4 + n - 1) div n = (n + 3) div n" by (simp add: algebra_simps)
  also have "\<dots> = 3 div n + 1" using assms by (rule div_add_self1)
  finally have eq: "(4 + n - 1) div n = 3 div n + 1" .
  have "3 div n \<noteq> 2"
  proof (cases "n < 0")
    case True
    then have "3 div n \<le> 0" by (simp add: div_nonneg_neg_le0)
    then show ?thesis by simp
  next
    case False
    with assms have "n = 1 \<or> n = 2 \<or> n = 3 \<or> 3 < n" by arith
    then show ?thesis
    proof (elim disjE)
      assume "3 < n"
      then have "3 div n = 0" by (simp add: div_pos_pos_trivial)
      then show ?thesis by simp
    qed simp_all
  qed
  with eq show ?thesis by simp
qed

lemma run_constraint_not_fair_totals:
  assumes "n \<noteq> 0"
  shows "run_constraint i d \<notin> set (fair_totals n m (m div n) ((m + n - 1) div n))"
proof
  assume "run_constraint i d \<in> set (fair_totals n m (m div n) ((m + n - 1) div n))"
  then obtain j where eq: "map (b_var j) (range_py m)
        = [b_var i d, b_var i (d + 1), b_var i (d + 2), b_var i (d + 3)]"
    and H: "(m + n - 1) div n = 3"
    by (auto simp: run_constraint_def fair_totals_def Add_def)
  from arg_cong[OF eq, of length] have "nat m = 4" by simp
  then have "m = 4" by simp
  with H ceil_four_not_three[OF assms] show False by simp
qed

lemma run_constraint_in_model:
  assumes "cp_sat_model n m sd ps = Inr M"
  shows "run_constraint i d \<in> set (constraints M) \<longleftrightarrow> int i < n \<and> int d + 3 < m"
proof -
  from assms obtain si dis where "list_index days sd = Inr si"
    and dis: "disallowed (day_vars m) ps = Inr dis" and n: "n \<noteq> 0"
    and "variables M = day_var_decls n m @ b_decls n m
        @ w_decls n (weekend_fridays si m) @ weekend_used_decls n"
    and cts: "constraints M = b_links n m @ w_links n (weekend_fridays si m)
        @ no_four_consecutive n m @ weekend_same_doctor (weekend_fridays si m)
        @ weekend_spread n (length (weekend_fridays si m)) @ dis
        @ fair_totals n m (m div n) ((m + n - 1) div n) @ window_coverage n m
        @ fair_weekends n (length (weekend_fridays si m))"
    by (rule cp_sat_model_InrE)
  show ?thesis
    unfolding cts set_append Un_iff
    by (simp add: run_constraint_not_b_links run_constraint_not_w_links run_constraint_not_same
      run_constraint_not_spread run_constraint_not_disallowed[OF dis]
      run_constraint_not_fair_totals[OF n] run_constraint_not_window
      run_constraint_not_fair_weekends run_constraint_no_four)
qed

lemma model_exists:
  assumes "start_day \<in> set days" and "m \<le> 0 \<or> is_int64 (n - 1)"
    and "list_all (pair_ok m) ps" and "n \<noteq> 0"
  shows "\<exists>M. cp_sat_model n m start_day ps = Inr M"
proof -
  from assms(3) obtain dis where "disallowed (day_vars m) ps = Inr dis"
    by (simp add: disallowed_Inr)
  with assms(2,4) cp_sat_model_unfold[OF assms(1), of n m ps] show ?thesis
    by auto
qed

lemma b_channel:
  assumes M: "cp_sat_model n m sd ps = Inr M" and sat: "satisfies em \<sigma> M"
    and i: "int i < n" and d: "int d < m"
  shows "(\<sigma> (b_var i d) = 1 \<longleftrightarrow> \<sigma> (day_var d) = int i)
      \<and> (\<sigma> (b_var i d) = 0 \<or> \<sigma> (b_var i d) = 1)"
proof -
  from M obtain si where si: "list_index days sd = Inr si" by (rule model_start_index)
  from sat have dom: "0 \<le> \<sigma> (b_var i d) \<and> \<sigma> (b_var i d) \<le> 1"
    and link: "(\<sigma> (b_var i d) = 1 \<longrightarrow> \<sigma> (day_var d) = int i) \<and>
        (\<sigma> (b_var i d) = 0 \<longrightarrow> \<sigma> (day_var d) \<noteq> int i)"
    using i d unfolding satisfies_sections[OF M si] b_decls_sem b_links_sem by blast+
  from dom have "\<sigma> (b_var i d) = 0 \<or> \<sigma> (b_var i d) = 1" by arith
  with link show ?thesis by auto
qed

lemma w_channel:
  assumes M: "cp_sat_model n m sd ps = Inr M" and sat: "satisfies em \<sigma> M"
    and si: "list_index days sd = Inr si"
    and i: "int i < n" and k: "k < length (weekend_fridays si m)"
  shows "(\<sigma> (w_var i k) = 1 \<longleftrightarrow>
            \<sigma> (day_var (weekend_fridays si m ! k)) = int i
            \<and> \<sigma> (day_var (weekend_fridays si m ! k + 1)) = int i)
      \<and> (\<sigma> (w_var i k) = 1 \<longleftrightarrow> \<sigma> (day_var (weekend_fridays si m ! k)) = int i)
      \<and> (\<sigma> (w_var i k) = 0 \<or> \<sigma> (w_var i k) = 1)"
proof -
  let ?fr = "weekend_fridays si m"
  from sat have dom: "0 \<le> \<sigma> (w_var i k) \<and> \<sigma> (w_var i k) \<le> 1"
    and link: "(\<sigma> (w_var i k) = 1 \<longrightarrow>
           \<sigma> (day_var (?fr ! k)) = int i \<and> \<sigma> (day_var (?fr ! k + 1)) = int i) \<and>
        (\<sigma> (w_var i k) = 0 \<longrightarrow> \<sigma> (day_var (?fr ! k)) \<noteq> int i)"
    and same: "\<forall>d \<in> set ?fr. \<sigma> (day_var d) = \<sigma> (day_var (d + 1))"
    using i k unfolding satisfies_sections[OF M si] w_decls_sem w_links_sem weekend_same_sem
    by blast+
  from dom have "\<sigma> (w_var i k) = 0 \<or> \<sigma> (w_var i k) = 1" by arith
  moreover from same k have "\<sigma> (day_var (?fr ! k)) = \<sigma> (day_var (?fr ! k + 1))"
    by simp
  ultimately show ?thesis using link by auto
qed

lemma sum_indicator:
  "(\<forall>i<N. f i = 0 \<or> f i = (1::int)) \<Longrightarrow>
     sum_list (map f [0..<N]) = int (card {i. i < N \<and> f i = 1})"
proof (induction N)
  case 0
  show ?case by simp
next
  case (Suc N)
  then have IH: "sum_list (map f [0..<N]) = int (card {i. i < N \<and> f i = 1})" by simp
  have fin: "finite {i. i < N \<and> f i = 1}" by simp
  show ?case
  proof (cases "f N = 1")
    case True
    then have "{i. i < Suc N \<and> f i = 1} = insert N {i. i < N \<and> f i = 1}"
      by (auto simp: less_Suc_eq)
    then have "card {i. i < Suc N \<and> f i = 1} = Suc (card {i. i < N \<and> f i = 1})"
      using fin by simp
    with IH True show ?thesis by simp
  next
    case False
    with Suc.prems have f0: "f N = 0" by auto
    from False have "{i. i < Suc N \<and> f i = 1} = {i. i < N \<and> f i = 1}"
      by (auto simp: less_Suc_eq)
    with IH f0 show ?thesis by simp
  qed
qed

lemma card_int_preimage:
  assumes "D \<subseteq> {0..<n}"
  shows "card {i. i < nat n \<and> int i \<in> D} = card D"
proof -
  have "int ` {i. i < nat n \<and> int i \<in> D} = D"
  proof
    show "int ` {i. i < nat n \<and> int i \<in> D} \<subseteq> D" by auto
    show "D \<subseteq> int ` {i. i < nat n \<and> int i \<in> D}"
    proof
      fix x assume x: "x \<in> D"
      with assms have "0 \<le> x" "x < n" by auto
      then have "nat x < nat n" "int (nat x) = x" by simp_all
      with x show "x \<in> int ` {i. i < nat n \<and> int i \<in> D}"
        by (intro image_eqI[of _ _ "nat x"]) simp_all
    qed
  qed
  moreover have "inj_on int {i. i < nat n \<and> int i \<in> D}" by (simp add: inj_on_def)
  ultimately show ?thesis using card_image by metis
qed

lemma schedule_of_nth:
  assumes "int d < m"
  shows "schedule_of \<sigma> m ! d = \<sigma> (day_var d)"
proof -
  from assms have "d < nat m" by simp
  then show ?thesis by (simp add: schedule_of_def range_py_def)
qed

lemma max_equality_sem:
  assumes "0 < W"
  shows "holds em \<sigma> (MaxEquality t (map f [0..<W])) \<longleftrightarrow>
     (\<forall>k<W. \<sigma> (f k) \<le> \<sigma> t) \<and> (\<exists>k<W. \<sigma> (f k) = \<sigma> t)"
proof -
  from assms have "map f [0..<W] \<noteq> []" by simp
  then have "holds em \<sigma> (MaxEquality t (map f [0..<W])) \<longleftrightarrow>
      list_all (\<lambda>x. \<sigma> x \<le> \<sigma> t) (map f [0..<W]) \<and> list_ex (\<lambda>x. \<sigma> x = \<sigma> t) (map f [0..<W])"
    by simp
  also have "\<dots> \<longleftrightarrow> (\<forall>k<W. \<sigma> (f k) \<le> \<sigma> t) \<and> (\<exists>k<W. \<sigma> (f k) = \<sigma> t)"
    by (auto simp: list_all_iff list_ex_iff)
  finally show ?thesis .
qed

lemma length_schedule_of [simp]: "length (schedule_of \<sigma> m) = nat m"
  by (simp add: schedule_of_def)

lemma weekend_fridays_nth:
  "k < length (weekend_fridays si m) \<Longrightarrow> int (weekend_fridays si m ! k) + 1 < m"
  using weekend_fridays_mem[of "weekend_fridays si m ! k" si m] nth_mem by blast

lemma weekend_doctors_sound:
  assumes M: "cp_sat_model n m sd ps = Inr M" and sat: "satisfies em \<sigma> M"
    and si: "list_index days sd = Inr si"
  shows "weekend_doctors (weekend_fridays si m) (schedule_of \<sigma> m)
       = (\<lambda>d. \<sigma> (day_var d)) ` set (weekend_fridays si m)"
proof -
  let ?fr = "weekend_fridays si m"
  from sat have same: "\<forall>d \<in> set ?fr. \<sigma> (day_var d) = \<sigma> (day_var (d + 1))"
    unfolding satisfies_sections[OF M si] weekend_same_sem by blast
  have nth: "schedule_of \<sigma> m ! d = \<sigma> (day_var d) \<and> schedule_of \<sigma> m ! (d + 1) = \<sigma> (day_var (d + 1))"
    if "d \<in> set ?fr" for d
    using that by (simp add: weekend_fridays_mem schedule_of_nth)
  have "filter (\<lambda>d. schedule_of \<sigma> m ! d = schedule_of \<sigma> m ! (d + 1)) ?fr = ?fr"
    using same nth by (simp add: filter_id_conv)
  then have "weekend_doctors ?fr (schedule_of \<sigma> m) = (\<lambda>d. schedule_of \<sigma> m ! d) ` set ?fr"
    by (simp add: weekend_doctors_def)
  also have "\<dots> = (\<lambda>d. \<sigma> (day_var d)) ` set ?fr"
    using nth by (intro image_cong) simp_all
  finally show ?thesis .
qed

lemma weekend_spread_sound:
  assumes M: "cp_sat_model n m sd ps = Inr M" and sat: "satisfies em \<sigma> M"
    and si: "list_index days sd = Inr si"
  shows "int (card (weekend_doctors (weekend_fridays si m) (schedule_of \<sigma> m)))
       = min n (int (length (weekend_fridays si m)))"
proof -
  let ?fr = "weekend_fridays si m"
  let ?W = "length ?fr"
  let ?D = "(\<lambda>d. \<sigma> (day_var d)) ` set ?fr"
  let ?u = "\<lambda>i. \<sigma> (weekend_used_var i)"
  note sec = satisfies_sections[OF M si]
  from sat have udom: "\<forall>i. int i < n \<longrightarrow> 0 \<le> ?u i \<and> ?u i \<le> 1"
    unfolding sec weekend_used_decls_sem by blast
  from sat have spread: "(\<forall>i. int i < n \<longrightarrow>
        holds em \<sigma> (MaxEquality (weekend_used_var i) (map (w_var i) [0..<?W])))
      \<and> sum_list (map ?u [0..<nat n]) = min n (int ?W)"
    unfolding sec weekend_spread_sem by blast
  from sat have ddom: "\<forall>d. int d < m \<longrightarrow> 0 \<le> \<sigma> (day_var d) \<and> \<sigma> (day_var d) \<le> n - 1"
    unfolding sec day_decls_sem by blast
  have D: "weekend_doctors ?fr (schedule_of \<sigma> m) = ?D"
    by (rule weekend_doctors_sound[OF M sat si])
  show ?thesis
  proof (cases "?W = 0")
    case True
    then have "?D = {}" by simp
    moreover have "0 \<le> n"
    proof (rule ccontr)
      assume "\<not> 0 \<le> n"
      then have "nat n = 0" "min n (int ?W) < 0" by simp_all
      with spread show False by simp
    qed
    ultimately show ?thesis using True D by simp
  next
    case False
    have u01: "\<forall>i<nat n. ?u i = 0 \<or> ?u i = 1"
    proof (intro allI impI)
      fix i assume "i < nat n"
      then have "int i < n" by simp
      with udom have "0 \<le> ?u i \<and> ?u i \<le> 1" by blast
      then show "?u i = 0 \<or> ?u i = 1" by arith
    qed
    have used: "?u i = 1 \<longleftrightarrow> int i \<in> ?D" if i: "i < nat n" for i
    proof -
      from i have i': "int i < n" by simp
      from False have "0 < ?W" by simp
      from spread i' max_equality_sem[OF this, of em \<sigma> "weekend_used_var i" "w_var i"]
      have le: "\<forall>k<?W. \<sigma> (w_var i k) \<le> ?u i"
        and ex: "\<exists>k<?W. \<sigma> (w_var i k) = ?u i"
        by blast+
      note ch = w_channel[OF M sat si i']
      show ?thesis
      proof
        assume "?u i = 1"
        with ex obtain k where k: "k < ?W" "\<sigma> (w_var i k) = 1" by auto
        with ch[of k] have "\<sigma> (day_var (?fr ! k)) = int i" by blast
        with k(1) show "int i \<in> ?D" by (metis image_eqI nth_mem)
      next
        assume "int i \<in> ?D"
        then obtain d where "d \<in> set ?fr" "\<sigma> (day_var d) = int i" by auto
        then obtain k where k: "k < ?W" "\<sigma> (day_var (?fr ! k)) = int i"
          by (auto simp: in_set_conv_nth)
        with ch[of k] have "\<sigma> (w_var i k) = 1" by blast
        with le k(1) have "1 \<le> ?u i" by fastforce
        with u01 i show "?u i = 1" by fastforce
      qed
    qed
    have sub: "?D \<subseteq> {0..<n}"
    proof
      fix x assume "x \<in> ?D"
      then obtain d where d: "d \<in> set ?fr" "x = \<sigma> (day_var d)" by auto
      then have "int d < m" by (simp add: weekend_fridays_mem)
      with ddom d(2) show "x \<in> {0..<n}" by fastforce
    qed
    have "sum_list (map ?u [0..<nat n]) = int (card {i. i < nat n \<and> ?u i = 1})"
      by (rule sum_indicator[OF u01])
    also have "{i. i < nat n \<and> ?u i = 1} = {i. i < nat n \<and> int i \<in> ?D}"
      using used by auto
    also have "card \<dots> = card ?D" by (rule card_int_preimage[OF sub])
    finally show ?thesis using spread D by simp
  qed
qed

lemma weekend_fridays_30: "weekend_fridays 4 30 = [0, 7, 14, 21, 28]"
  by code_simp

lemma example1_run:
  "cp_sat_generate_schedule
      (candidate_solver (\<lambda>v. False)
         (schedule_valuation (weekend_fridays 4 30) example1_feasible_schedule))
      3 30 ''Friday'' example1_disallowed_pairs 10 8 None = Inr example1_feasible_schedule"
  by code_simp

lemma scenario4_model:
  "\<exists>M. cp_sat_model 2 5 ''Monday'' [(0, 0), (0, 1), (0, 2), (0, 3), (0, 4)] = Inr M"
  by (rule model_exists) (simp_all add: days_def day_index_ok_def pair_ok_def is_int64_def)

section \<open>The model and the invariants\<close>



lemma example1_feasible_facts:
  "assignment_ok 3 30 example1_feasible_schedule"
  "forbidden_days_ok 30 example1_disallowed_pairs example1_feasible_schedule"
  "no_long_run example1_feasible_schedule"
  "weekend_pairing (weekend_fridays 4 30) example1_feasible_schedule"
  "weekend_spread_equal 3 (weekend_fridays 4 30) example1_feasible_schedule"
  "load_fair 3 30 example1_feasible_schedule"
  "window_covered 3 30 example1_feasible_schedule"
  "weekend_fair 3 (weekend_fridays 4 30) example1_feasible_schedule"
  by code_simp+

lemma less_nat_int: "d < nat m \<longleftrightarrow> int d < m"
  by auto

lemma canon_day_decls:
  assumes "length s = nat m"
  shows "list_all (in_domain (schedule_valuation fr s)) (day_var_decls n m)
       \<longleftrightarrow> list_all (\<lambda>x. 0 \<le> x \<and> x < n) s"
proof -
  have "list_all (\<lambda>x. 0 \<le> x \<and> x < n) s \<longleftrightarrow> (\<forall>d<nat m. 0 \<le> s ! d \<and> s ! d < n)"
    using assms by (simp add: list_all_length)
  also have "\<dots> \<longleftrightarrow> (\<forall>d. int d < m \<longrightarrow> 0 \<le> s ! d \<and> s ! d \<le> n - 1)"
    by (auto simp: less_nat_int)
  finally show ?thesis by (simp add: day_decls_sem)
qed

lemma canon_bool_decls:
  "list_all (in_domain (schedule_valuation fr s)) (b_decls n m)"
  "list_all (in_domain (schedule_valuation fr s)) (w_decls n fr')"
  "list_all (in_domain (schedule_valuation fr s)) (weekend_used_decls n)"
  by (simp_all add: b_decls_sem w_decls_sem weekend_used_decls_sem)

lemma canon_b_links: "list_all (holds em (schedule_valuation fr s)) (b_links n m)"
  by (simp add: b_links_sem)

lemma canon_weekend_same:
  "list_all (holds em (schedule_valuation fr s)) (weekend_same_doctor fr) \<longleftrightarrow> weekend_pairing fr s"
  by (simp add: weekend_same_sem weekend_pairing_def) (simp add: list_all_iff)

lemma canon_w_links:
  assumes "weekend_pairing fr s"
  shows "list_all (holds em (schedule_valuation fr s)) (w_links n fr)"
proof -
  have "s ! (fr ! k) = s ! (fr ! k + 1)" if "k < length fr" for k
    using assms that by (simp add: weekend_pairing_def list_all_length)
  then show ?thesis by (simp add: w_links_sem)
qed

lemma canon_disallowed:
  "disallowed (day_vars m) ps = Inr dis \<Longrightarrow>
   list_all (holds em (schedule_valuation fr s)) dis \<longleftrightarrow> forbidden_days_ok m ps s"
  by (simp add: disallowed_sem forbidden_days_ok_def)

lemma canon_no_four:
  assumes "assignment_ok n m s"
  shows "list_all (holds em (schedule_valuation fr s)) (no_four_consecutive n m)
       \<longleftrightarrow> no_long_run s"
proof -
  let ?c = "schedule_valuation fr s"
  from assms have len: "length s = nat m" and rng: "\<forall>d<nat m. 0 \<le> s ! d \<and> s ! d < n"
    by (simp_all add: assignment_ok_def list_all_length)
  have nlr: "no_long_run s \<longleftrightarrow>
      (\<forall>d. int d < m - 3 \<longrightarrow>
          \<not> (s ! d = s ! (d + 1) \<and> s ! (d + 1) = s ! (d + 2) \<and> s ! (d + 2) = s ! (d + 3)))"
  proof -
    have h: "d < nat m - 3 \<longleftrightarrow> int d < m - 3" for d by arith
    show ?thesis unfolding no_long_run_def list_all_iff len
      by (simp add: Ball_def h)
  qed
  have "(\<forall>i. int i < n \<longrightarrow>
            ?c (b_var i d) + ?c (b_var i (d + 1)) + ?c (b_var i (d + 2)) + ?c (b_var i (d + 3)) \<le> 3)
        \<longleftrightarrow> \<not> (s ! d = s ! (d + 1) \<and> s ! (d + 1) = s ! (d + 2) \<and> s ! (d + 2) = s ! (d + 3))"
    if d: "int d < m - 3" for d
  proof
    assume le: "\<forall>i. int i < n \<longrightarrow>
        ?c (b_var i d) + ?c (b_var i (d + 1)) + ?c (b_var i (d + 2)) + ?c (b_var i (d + 3)) \<le> 3"
    show "\<not> (s ! d = s ! (d + 1) \<and> s ! (d + 1) = s ! (d + 2) \<and> s ! (d + 2) = s ! (d + 3))"
    proof
      assume eq: "s ! d = s ! (d + 1) \<and> s ! (d + 1) = s ! (d + 2) \<and> s ! (d + 2) = s ! (d + 3)"
      from d have "d < nat m" by simp
      with rng have r: "0 \<le> s ! d" "s ! d < n" by simp_all
      define i where "i = nat (s ! d)"
      from r have i: "int i < n" "s ! d = int i" by (simp_all add: i_def)
      from eq i(2) have "s ! (d + 1) = int i" "s ! (d + 2) = int i" "s ! (d + 3) = int i"
        by simp_all
      with i(2) have "?c (b_var i d) + ?c (b_var i (d + 1)) + ?c (b_var i (d + 2))
          + ?c (b_var i (d + 3)) = 4"
        by simp
      with le i(1) show False by fastforce
    qed
  next
    assume "\<not> (s ! d = s ! (d + 1) \<and> s ! (d + 1) = s ! (d + 2) \<and> s ! (d + 2) = s ! (d + 3))"
    then show "\<forall>i. int i < n \<longrightarrow>
        ?c (b_var i d) + ?c (b_var i (d + 1)) + ?c (b_var i (d + 2)) + ?c (b_var i (d + 3)) \<le> 3"
      by auto
  qed
  then show ?thesis unfolding no_four_sem nlr by blast
qed

lemma indicator_sum_filter:
  "sum_list (map (\<lambda>x. if P x then 1 else 0) xs) = int (length (filter P xs))"
  by (induction xs) simp_all

lemma count_list_filter: "count_list xs y = length (filter (\<lambda>x. x = y) xs)"
  by (induction xs) simp_all

lemma map_nth_upt: "map (\<lambda>d. g (xs ! d)) [0..<length xs] = map g xs"
proof -
  have "map (\<lambda>d. g (xs ! d)) [0..<length xs] = map g (map (\<lambda>d. xs ! d) [0..<length xs])"
    by (simp add: comp_def)
  then show ?thesis by (simp add: map_nth)
qed

lemma map_nth_window:
  assumes "d + K \<le> length xs"
  shows "map (\<lambda>k. xs ! (d + k)) [0..<K] = take K (drop d xs)"
  using assms by (intro nth_equalityI) simp_all

lemma ceil_div:
  assumes "0 < (n::int)"
  shows "(m + n - 1) div n = - ((- m) div n)"
proof (cases "m mod n = 0")
  case True
  then obtain q where m: "m = q * n" by (metis mod_eq_0_iff_dvd dvd_def mult.commute)
  have "(m + n - 1) div n = (n - 1 + q * n) div n" by (simp add: m algebra_simps)
  also have "\<dots> = (n - 1) div n + q" using assms by (simp only: div_mult_self1[of n "n - 1" q] )
  also have "(n - 1) div n = 0" using assms by (simp add: div_pos_pos_trivial)
  finally have a: "(m + n - 1) div n = q" by simp
  have "((- q) * n) div n = - q"
    using assms by (intro nonzero_mult_div_cancel_right) simp
  moreover have "- m = (- q) * n" by (simp add: m)
  ultimately have "(- m) div n = - q" by (simp only:)
  with a show ?thesis by simp
next
  case False
  have m: "m = n * (m div n) + m mod n" by simp
  from assms have r: "0 \<le> m mod n" "m mod n < n" by simp_all
  with False have r1: "0 \<le> m mod n - 1" "m mod n - 1 < n" by simp_all
  have "m + n - 1 = (m mod n - 1) + (m div n + 1) * n"
    using m by (simp add: algebra_simps)
  then have "(m + n - 1) div n = (m mod n - 1) div n + (m div n + 1)"
    using assms by (simp only: div_mult_self1[of n "m mod n - 1" "m div n + 1"])
  also have "(m mod n - 1) div n = 0" using r1 by (simp add: div_pos_pos_trivial)
  finally have a: "(m + n - 1) div n = m div n + 1" by simp
  have "(- m) div n = - (m div n) - 1"
    using assms False by (simp add: zdiv_zminus1_eq_if)
  with a show ?thesis by simp
qed

lemma canon_fair_totals:
  assumes "length s = nat m" and "0 < n"
  shows "list_all (holds em (schedule_valuation fr s)) (fair_totals n m (m div n) ((m + n - 1) div n))
       \<longleftrightarrow> load_fair n m s"
proof -
  have "sum_list (map (\<lambda>d. schedule_valuation fr s (b_var i d)) [0..<nat m])
        = int (count_list s (int i))" for i
  proof -
    have "sum_list (map (\<lambda>d. schedule_valuation fr s (b_var i d)) [0..<nat m])
        = sum_list (map (\<lambda>d. (\<lambda>x. if x = int i then 1 else 0) (s ! d)) [0..<length s])"
      by (simp add: assms(1))
    also have "\<dots> = sum_list (map (\<lambda>x. if x = int i then 1 else 0) s)"
      by (rule arg_cong[where f = sum_list, OF map_nth_upt[of "\<lambda>x. if x = int i then 1 else 0" s]])
    also have "\<dots> = int (count_list s (int i))"
      by (simp add: indicator_sum_filter count_list_filter)
    finally show ?thesis .
  qed
  then have "list_all (holds em (schedule_valuation fr s))
        (fair_totals n m (m div n) ((m + n - 1) div n)) \<longleftrightarrow>
      (\<forall>i. int i < n \<longrightarrow> m div n \<le> int (count_list s (int i))
          \<and> int (count_list s (int i)) \<le> (m + n - 1) div n)"
    unfolding fair_totals_sem by simp
  moreover have "load_fair n m s \<longleftrightarrow>
      (\<forall>i. int i < n \<longrightarrow> m div n \<le> int (count_list s (int i))
          \<and> int (count_list s (int i)) \<le> (m + n - 1) div n)"
    by (simp add: load_fair_def list_all_iff Ball_def ceil_div[OF assms(2)])
  ultimately show ?thesis by blast
qed

lemma canon_window:
  assumes "length s = nat m" and "0 < n"
  shows "list_all (holds em (schedule_valuation fr s)) (window_coverage n m)
       \<longleftrightarrow> window_covered n m s"
proof (cases "3 * n \<le> m")
  case False
  then show ?thesis by (simp add: window_sem window_covered_def)
next
  case True
  let ?K = "nat (3 * n)"
  have win: "1 \<le> sum_list (map (\<lambda>k. schedule_valuation fr s (b_var i (d + k))) [0..<?K])
        \<longleftrightarrow> int i \<in> set (take ?K (drop d s))"
    if d: "int d < m - 3 * n + 1" for i d
  proof -
    from d True assms have le: "d + ?K \<le> length s" by simp
    have "sum_list (map (\<lambda>k. schedule_valuation fr s (b_var i (d + k))) [0..<?K])
        = sum_list (map (\<lambda>x. if x = int i then 1 else 0) (map (\<lambda>k. s ! (d + k)) [0..<?K]))"
      by (simp add: comp_def)
    also have "\<dots> = int (length (filter (\<lambda>x. x = int i) (take ?K (drop d s))))"
      by (simp only: map_nth_window[OF le] indicator_sum_filter)
    finally have "1 \<le> sum_list (map (\<lambda>k. schedule_valuation fr s (b_var i (d + k))) [0..<?K])
        \<longleftrightarrow> filter (\<lambda>x. x = int i) (take ?K (drop d s)) \<noteq> []"
      by (cases "filter (\<lambda>x. x = int i) (take ?K (drop d s))") simp_all
    also have "\<dots> \<longleftrightarrow> int i \<in> set (take ?K (drop d s))"
      by (auto simp: filter_empty_conv)
    finally show ?thesis .
  qed
  have "list_all (holds em (schedule_valuation fr s)) (window_coverage n m) \<longleftrightarrow>
      (\<forall>i d. int i < n \<and> int d < m - 3 * n + 1 \<longrightarrow> int i \<in> set (take ?K (drop d s)))"
    using True win unfolding window_sem by simp
  also have "\<dots> \<longleftrightarrow> window_covered n m s"
    using True by (auto simp: window_covered_def list_all_iff)
  finally show ?thesis .
qed

lemma canon_w_sum:
  assumes "weekend_pairing fr s"
  shows "sum_list (map (\<lambda>k. schedule_valuation fr s (w_var i k)) [0..<length fr])
       = int (weekend_blocks fr s (int i))"
proof -
  have "sum_list (map (\<lambda>k. schedule_valuation fr s (w_var i k)) [0..<length fr])
      = sum_list (map (\<lambda>k. (\<lambda>d. if s ! d = int i then 1 else 0) (fr ! k)) [0..<length fr])"
    by simp
  also have "\<dots> = sum_list (map (\<lambda>d. if s ! d = int i then 1 else 0) fr)"
    by (rule arg_cong[where f = sum_list, OF map_nth_upt[of "\<lambda>d. if s ! d = int i then 1 else 0" fr]])
  also have "\<dots> = int (length (filter (\<lambda>d. s ! d = int i) fr))"
    by (simp only: indicator_sum_filter)
  also have "filter (\<lambda>d. s ! d = int i) fr = filter (\<lambda>d. s ! d = int i \<and> s ! (d + 1) = int i) fr"
    using assms by (intro filter_cong) (auto simp: weekend_pairing_def list_all_iff)
  finally show ?thesis by (simp add: weekend_blocks_def)
qed

lemma canon_fair_weekends:
  assumes "weekend_pairing fr s" and "0 < n"
  shows "list_all (holds em (schedule_valuation fr s)) (fair_weekends n (length fr))
       \<longleftrightarrow> weekend_fair n fr s"
proof (cases "fr = []")
  case True
  then show ?thesis by (simp add: fair_weekends_sem weekend_fair_def)
next
  case False
  have "weekend_fair n fr s \<longleftrightarrow>
      (\<forall>i. int i < n \<longrightarrow> int (length fr) div n \<le> int (weekend_blocks fr s (int i))
          \<and> int (weekend_blocks fr s (int i)) \<le> (int (length fr) + n - 1) div n)"
    using False by (simp add: weekend_fair_def list_all_iff Ball_def ceil_div[OF assms(2)])
  moreover have "list_all (holds em (schedule_valuation fr s)) (fair_weekends n (length fr)) \<longleftrightarrow>
      (\<forall>i. int i < n \<longrightarrow> int (length fr) div n \<le> int (weekend_blocks fr s (int i))
          \<and> int (weekend_blocks fr s (int i)) \<le> (int (length fr) + n - 1) div n)"
    using False unfolding fair_weekends_sem canon_w_sum[OF assms(1)] by simp
  ultimately show ?thesis by blast
qed

lemma weekend_doctors_paired:
  assumes "weekend_pairing fr s"
  shows "weekend_doctors fr s = (\<lambda>d. s ! d) ` set fr"
proof -
  from assms have "filter (\<lambda>d. s ! d = s ! (d + 1)) fr = fr"
    by (simp add: weekend_pairing_def list_all_iff filter_id_conv)
  then show ?thesis by (simp add: weekend_doctors_def)
qed

lemma canon_used_sum:
  assumes ok: "assignment_ok n m s" and fr: "\<forall>d\<in>set fr. int d < m"
  shows "sum_list (map (\<lambda>i. schedule_valuation fr s (weekend_used_var i)) [0..<nat n])
       = int (card ((\<lambda>d. s ! d) ` set fr))"
proof -
  let ?D = "(\<lambda>d. s ! d) ` set fr"
  let ?u = "\<lambda>i. schedule_valuation fr s (weekend_used_var i)"
  have u: "?u i = (if int i \<in> ?D then 1 else 0)" for i
  proof -
    have "list_ex (\<lambda>d. s ! d = int i) fr \<longleftrightarrow> int i \<in> ?D"
      unfolding list_ex_iff by (metis (mono_tags, lifting) image_iff)
    then show ?thesis by simp
  qed
  have sub: "?D \<subseteq> {0..<n}"
  proof
    fix x assume "x \<in> ?D"
    then obtain d where d: "d \<in> set fr" "x = s ! d" by auto
    with fr have "d < nat m" by auto
    with ok d(2) show "x \<in> {0..<n}" by (simp add: assignment_ok_def list_all_length)
  qed
  have "sum_list (map ?u [0..<nat n]) = int (card {i. i < nat n \<and> ?u i = 1})"
    by (rule sum_indicator) (simp add: u)
  also have "{i. i < nat n \<and> ?u i = 1} = {i. i < nat n \<and> int i \<in> ?D}"
    unfolding u by auto
  also have "card \<dots> = card ?D" by (rule card_int_preimage[OF sub])
  finally show ?thesis .
qed

lemma canon_max_equality:
  assumes "fr \<noteq> []"
  shows "holds em (schedule_valuation fr s)
           (MaxEquality (weekend_used_var i) (map (w_var i) [0..<length fr]))"
proof -
  let ?c = "schedule_valuation fr s"
  from assms have W: "0 < length fr" by simp
  have le: "\<forall>k<length fr. ?c (w_var i k) \<le> ?c (weekend_used_var i)"
    by (auto simp: list_ex_iff)
  have ex: "\<exists>k<length fr. ?c (w_var i k) = ?c (weekend_used_var i)"
  proof (cases "list_ex (\<lambda>d. s ! d = int i) fr")
    case True
    then obtain k where "k < length fr" "s ! (fr ! k) = int i"
      by (auto simp: list_ex_iff in_set_conv_nth)
    with True show ?thesis by (intro exI[of _ k]) simp
  next
    case False
    then have "s ! (fr ! 0) \<noteq> int i"
      using W by (auto simp: list_ex_iff)
    with False W show ?thesis by (intro exI[of _ 0]) simp
  qed
  from le ex show ?thesis unfolding max_equality_sem[OF W] by blast
qed

lemma canon_spread:
  assumes ok: "assignment_ok n m s" and pair: "weekend_pairing fr s"
    and fr: "\<forall>d\<in>set fr. int d < m" and n: "0 < n"
  shows "list_all (holds em (schedule_valuation fr s)) (weekend_spread n (length fr))
       \<longleftrightarrow> (fr = [] \<longrightarrow> em 0) \<and> weekend_spread_equal n fr s"
proof -
  let ?c = "schedule_valuation fr s"
  have sum: "sum_list (map (\<lambda>i. ?c (weekend_used_var i)) [0..<nat n])
      = int (card (weekend_doctors fr s))"
    by (simp only: canon_used_sum[OF ok fr] weekend_doctors_paired[OF pair])
  have mx: "(\<forall>i. int i < n \<longrightarrow>
        holds em ?c (MaxEquality (weekend_used_var i) (map (w_var i) [0..<length fr])))
      \<longleftrightarrow> (fr = [] \<longrightarrow> em 0)"
  proof (cases "fr = []")
    case True
    have "(\<forall>i. int i < n \<longrightarrow> em 0) \<longleftrightarrow> em 0"
      using n by (auto intro: exI[of _ 0])
    with True show ?thesis by simp
  next
    case False
    with canon_max_equality[OF False] show ?thesis by simp
  qed
  show ?thesis
    unfolding weekend_spread_sem sum mx weekend_spread_equal_def by blast
qed

lemma declared_simps [simp]:
  "day_var d \<in> declared_vars n m W \<longleftrightarrow> int d < m"
  "b_var i d \<in> declared_vars n m W \<longleftrightarrow> int i < n \<and> int d < m"
  "w_var i k \<in> declared_vars n m W \<longleftrightarrow> int i < n \<and> k < W"
  "weekend_used_var i \<in> declared_vars n m W \<longleftrightarrow> int i < n"
  by (auto simp: declared_vars_def)

lemma eval_expr_cong:
  "(\<forall>x\<in>expr_vars a. \<sigma> x = \<tau> x) \<Longrightarrow> eval_expr \<sigma> a = eval_expr \<tau> a"
proof (cases a)
  case (LinSum xs)
  assume "\<forall>x\<in>expr_vars a. \<sigma> x = \<tau> x"
  with LinSum have "map \<sigma> xs = map \<tau> xs" by (intro map_cong) simp_all
  then have "sum_list (map \<sigma> xs) = sum_list (map \<tau> xs)" by (rule arg_cong)
  with LinSum show ?thesis by simp
qed simp_all

lemma lit_holds_cong: "\<sigma> (lit_var l) = \<tau> (lit_var l) \<Longrightarrow> lit_holds \<sigma> l = lit_holds \<tau> l"
  by (cases l) simp_all

lemma holds_cong:
  assumes "\<forall>x\<in>constraint_vars c. \<sigma> x = \<tau> x"
  shows "holds em \<sigma> c = holds em \<tau> c"
proof (cases c)
  case (Linear ls a r b)
  with assms have "\<forall>l\<in>set ls. \<sigma> (lit_var l) = \<tau> (lit_var l)" by simp
  then have "\<forall>l\<in>set ls. lit_holds \<sigma> l = lit_holds \<tau> l"
    using lit_holds_cong by blast
  then have "list_all (lit_holds \<sigma>) ls = list_all (lit_holds \<tau>) ls"
    unfolding list_all_iff by blast
  moreover from Linear assms have "eval_expr \<sigma> a = eval_expr \<tau> a" "eval_expr \<sigma> b = eval_expr \<tau> b"
    by (simp_all add: eval_expr_cong)
  ultimately show ?thesis using Linear by simp
next
  case (MaxEquality t xs)
  with assms have t: "\<sigma> t = \<tau> t" and xs: "\<forall>x\<in>set xs. \<sigma> x = \<tau> x" by simp_all
  from xs t have "list_all (\<lambda>x. \<sigma> x \<le> \<sigma> t) xs = list_all (\<lambda>x. \<tau> x \<le> \<tau> t) xs"
    "list_ex (\<lambda>x. \<sigma> x = \<sigma> t) xs = list_ex (\<lambda>x. \<tau> x = \<tau> t) xs"
    by (auto simp: list_all_iff list_ex_iff)
  with t MaxEquality show ?thesis by simp
qed

lemma model_parts:
  assumes "cp_sat_model n m sd ps = Inr M" and "list_index days sd = Inr si"
  obtains dis where "disallowed (day_vars m) ps = Inr dis" and "n \<noteq> 0"
    and "variables M = day_var_decls n m @ b_decls n m
        @ w_decls n (weekend_fridays si m) @ weekend_used_decls n"
    and "constraints M = b_links n m @ w_links n (weekend_fridays si m)
        @ no_four_consecutive n m @ weekend_same_doctor (weekend_fridays si m)
        @ weekend_spread n (length (weekend_fridays si m)) @ dis
        @ fair_totals n m (m div n) ((m + n - 1) div n) @ window_coverage n m
        @ fair_weekends n (length (weekend_fridays si m))"
proof -
  from assms(1) obtain si' dis where si': "list_index days sd = Inr si'"
    and rest: "disallowed (day_vars m) ps = Inr dis" "n \<noteq> 0"
    "variables M = day_var_decls n m @ b_decls n m
        @ w_decls n (weekend_fridays si' m) @ weekend_used_decls n"
    "constraints M = b_links n m @ w_links n (weekend_fridays si' m)
        @ no_four_consecutive n m @ weekend_same_doctor (weekend_fridays si' m)
        @ weekend_spread n (length (weekend_fridays si' m)) @ dis
        @ fair_totals n m (m div n) ((m + n - 1) div n) @ window_coverage n m
        @ fair_weekends n (length (weekend_fridays si' m))"
    by (rule cp_sat_model_InrE)
  from si' assms(2) have "si' = si" by simp
  with rest show thesis using that by simp
qed

lemma model_declares:
  assumes "cp_sat_model n m sd ps = Inr M" and "list_index days sd = Inr si"
    and "v \<in> set (variables M)"
  shows "fst v \<in> declared_vars n m (length (weekend_fridays si m))"
proof -
  from assms(1,2) obtain dis where
    vars: "variables M = day_var_decls n m @ b_decls n m
        @ w_decls n (weekend_fridays si m) @ weekend_used_decls n"
    by (rule model_parts)
  from assms(3) show ?thesis
    unfolding vars
    by (auto simp: day_var_decls_def b_decls_def w_decls_def weekend_used_decls_def
        NewIntVar_def NewBoolVar_def)
qed

lemma vars_b_links: "c \<in> set (b_links n m) \<Longrightarrow> constraint_vars c \<subseteq> declared_vars n m W"
  by (auto simp: b_links_def Add_def)

lemma vars_w_links:
  assumes "c \<in> set (w_links n fr)" and "\<forall>d\<in>set fr. int d + 1 < m"
  shows "constraint_vars c \<subseteq> declared_vars n m (length fr)"
proof -
  from assms(1) obtain i k where ik: "int i < n" "k < length fr"
    and c: "c = OnlyEnforceIf (Add (LinVar (day_var (fr ! k))) EQ (LinConst (int i))) (Lit (w_var i k))
      \<or> c = OnlyEnforceIf (Add (LinVar (day_var (fr ! k + 1))) EQ (LinConst (int i))) (Lit (w_var i k))
      \<or> c = OnlyEnforceIf (Add (LinVar (day_var (fr ! k))) NE (LinConst (int i))) (NotLit (w_var i k))"
    by (auto simp: w_links_def in_set_enumerate_eq)
  from ik(2) assms(2) have "int (fr ! k) + 1 < m" by simp
  with ik c show ?thesis by (auto simp: Add_def)
qed

lemma vars_no_four:
  "c \<in> set (no_four_consecutive n m) \<Longrightarrow> constraint_vars c \<subseteq> declared_vars n m W"
  by (auto simp: no_four_consecutive_def Add_def range_py_4)

lemma vars_weekend_same:
  assumes "c \<in> set (weekend_same_doctor fr)" and "\<forall>d\<in>set fr. int d + 1 < m"
  shows "constraint_vars c \<subseteq> declared_vars n m W"
proof -
  from assms(1) obtain d where d: "d \<in> set fr"
    and c: "c = Add (LinVar (day_var d)) EQ (LinVar (day_var (d + 1)))"
    by (auto simp: weekend_same_doctor_def)
  from d assms(2) have "int d + 1 < m" by simp
  with c show ?thesis by (auto simp: Add_def)
qed

lemma vars_weekend_spread:
  "c \<in> set (weekend_spread n W) \<Longrightarrow> constraint_vars c \<subseteq> declared_vars n m W"
  by (auto simp: weekend_spread_def weekend_used_def Add_def)

lemma vars_disallowed:
  assumes "disallowed (day_vars m) ps = Inr dis" and "c \<in> set dis"
  shows "constraint_vars c \<subseteq> declared_vars n m W"
proof -
  from assms obtain i d where "day_index_ok m d"
    and c: "c = Add (LinVar (day_var (day_position m d))) NE (LinConst i)"
    by (auto simp: disallowed_Inr list_all_iff pair_ok_def)
  then have "int (day_position m d) < m"
    by (auto simp: day_index_ok_def day_position_def)
  with c show ?thesis by (auto simp: Add_def)
qed

lemma vars_fair_totals:
  "c \<in> set (fair_totals n m L H) \<Longrightarrow> constraint_vars c \<subseteq> declared_vars n m W"
  by (auto simp: fair_totals_def Add_def)

lemma vars_window:
  "c \<in> set (window_coverage n m) \<Longrightarrow> constraint_vars c \<subseteq> declared_vars n m W"
  by (auto simp: window_coverage_def Add_def Let_def split: if_splits)

lemma vars_fair_weekends:
  "c \<in> set (fair_weekends n W) \<Longrightarrow> constraint_vars c \<subseteq> declared_vars n m W"
  by (auto simp: fair_weekends_def Add_def Let_def split: if_splits)

lemma model_closed:
  assumes "cp_sat_model n m sd ps = Inr M" and "list_index days sd = Inr si"
    and "c \<in> set (constraints M)"
  shows "constraint_vars c \<subseteq> declared_vars n m (length (weekend_fridays si m))"
proof -
  let ?fr = "weekend_fridays si m"
  from assms(1,2) obtain dis where dis: "disallowed (day_vars m) ps = Inr dis"
    and cts: "constraints M = b_links n m @ w_links n ?fr
        @ no_four_consecutive n m @ weekend_same_doctor ?fr
        @ weekend_spread n (length ?fr) @ dis
        @ fair_totals n m (m div n) ((m + n - 1) div n) @ window_coverage n m
        @ fair_weekends n (length ?fr)"
    by (rule model_parts)
  have fr: "\<forall>d\<in>set ?fr. int d + 1 < m"
    by (simp add: weekend_fridays_mem)
  from assms(3) show ?thesis
    unfolding cts set_append Un_iff
    using vars_b_links vars_w_links[OF _ fr] vars_no_four vars_weekend_same[OF _ fr]
      vars_weekend_spread vars_disallowed[OF dis] vars_fair_totals vars_window
      vars_fair_weekends
    by (elim disjE) blast+
qed

lemma satisfies_cong:
  assumes M: "cp_sat_model n m sd ps = Inr M" and si: "list_index days sd = Inr si"
    and agree: "\<forall>x\<in>declared_vars n m (length (weekend_fridays si m)). \<sigma> x = \<tau> x"
  shows "satisfies em \<sigma> M = satisfies em \<tau> M"
proof -
  have "in_domain \<sigma> v = in_domain \<tau> v" if "v \<in> set (variables M)" for v
  proof -
    from model_declares[OF M si that] agree have "\<sigma> (fst v) = \<tau> (fst v)" by blast
    then show ?thesis by (cases v) simp
  qed
  then have "list_all (in_domain \<sigma>) (variables M) = list_all (in_domain \<tau>) (variables M)"
    unfolding list_all_iff by blast
  moreover have "holds em \<sigma> c = holds em \<tau> c" if "c \<in> set (constraints M)" for c
    using model_closed[OF M si that] agree by (intro holds_cong) blast
  then have "list_all (holds em \<sigma>) (constraints M) = list_all (holds em \<tau>) (constraints M)"
    unfolding list_all_iff by blast
  ultimately show ?thesis by (simp add: satisfies_def)
qed

lemma satisfies_n_pos:
  assumes M: "cp_sat_model n m sd ps = Inr M" and sat: "satisfies em \<sigma> M"
  shows "0 < n"
proof (rule ccontr)
  assume "\<not> 0 < n"
  from M obtain si where si: "list_index days sd = Inr si" by (rule model_start_index)
  from M si obtain dis where "n \<noteq> 0" by (rule model_parts)
  with \<open>\<not> 0 < n\<close> have neg: "n < 0" by simp
  from sat have "sum_list (map (\<lambda>i. \<sigma> (weekend_used_var i)) [0..<nat n])
      = min n (int (length (weekend_fridays si m)))"
    unfolding satisfies_sections[OF M si] weekend_spread_sem by blast
  with neg show False by simp
qed

lemma used_channel:
  assumes M: "cp_sat_model n m sd ps = Inr M" and sat: "satisfies em \<sigma> M"
    and si: "list_index days sd = Inr si" and i: "int i < n"
  shows "\<sigma> (weekend_used_var i)
       = (if \<exists>d\<in>set (weekend_fridays si m). \<sigma> (day_var d) = int i then 1 else 0)"
proof -
  let ?fr = "weekend_fridays si m"
  let ?W = "length ?fr"
  let ?u = "\<lambda>i. \<sigma> (weekend_used_var i)"
  note sec = satisfies_sections[OF M si]
  from sat have udom: "\<forall>i. int i < n \<longrightarrow> 0 \<le> ?u i \<and> ?u i \<le> 1"
    unfolding sec weekend_used_decls_sem by blast
  from sat have spread: "(\<forall>i. int i < n \<longrightarrow>
        holds em \<sigma> (MaxEquality (weekend_used_var i) (map (w_var i) [0..<?W])))
      \<and> sum_list (map ?u [0..<nat n]) = min n (int ?W)"
    unfolding sec weekend_spread_sem by blast
  have u01: "\<forall>i<nat n. ?u i = 0 \<or> ?u i = 1"
  proof (intro allI impI)
    fix j assume "j < nat n"
    then have "int j < n" by simp
    with udom have "0 \<le> ?u j \<and> ?u j \<le> 1" by blast
    then show "?u j = 0 \<or> ?u j = 1" by arith
  qed
  from i have i': "i < nat n" by simp
  show ?thesis
  proof (cases "?W = 0")
    case True
    from spread True have "sum_list (map ?u [0..<nat n]) \<le> 0" by simp
    then have "card {j. j < nat n \<and> ?u j = 1} = 0"
      unfolding sum_indicator[OF u01] by simp
    then have "{j. j < nat n \<and> ?u j = 1} = {}" by simp
    with i' have "?u i \<noteq> 1" by blast
    with u01 i' have "?u i = 0" by blast
    with True show ?thesis by simp
  next
    case False
    then have W: "0 < ?W" by simp
    from spread i max_equality_sem[OF W, of em \<sigma> "weekend_used_var i" "w_var i"]
    have le: "\<forall>k<?W. \<sigma> (w_var i k) \<le> ?u i"
      and ex: "\<exists>k<?W. \<sigma> (w_var i k) = ?u i"
      by blast+
    note ch = w_channel[OF M sat si i]
    show ?thesis
    proof (cases "\<exists>d\<in>set ?fr. \<sigma> (day_var d) = int i")
      case True
      then obtain k where k: "k < ?W" "\<sigma> (day_var (?fr ! k)) = int i"
        by (auto simp: in_set_conv_nth)
      with ch[of k] have "\<sigma> (w_var i k) = 1" by blast
      with le k(1) have "1 \<le> ?u i" by fastforce
      with u01 i' have "?u i = 1" by fastforce
      with True show ?thesis by simp
    next
      case False
      have "?u i \<noteq> 1"
      proof
        assume "?u i = 1"
        with ex obtain k where k: "k < ?W" "\<sigma> (w_var i k) = 1" by auto
        with ch[of k] have "\<sigma> (day_var (?fr ! k)) = int i" by blast
        with k(1) False show False by (metis nth_mem)
      qed
      with u01 i' have "?u i = 0" by blast
      with False show ?thesis by simp
    qed
  qed
qed

lemma valuation_determined:
  assumes M: "cp_sat_model n m sd ps = Inr M" and sat: "satisfies em \<sigma> M"
    and si: "list_index days sd = Inr si"
  shows "\<forall>x\<in>declared_vars n m (length (weekend_fridays si m)).
           \<sigma> x = schedule_valuation (weekend_fridays si m) (schedule_of \<sigma> m) x"
proof
  let ?fr = "weekend_fridays si m"
  let ?s = "schedule_of \<sigma> m"
  fix x assume x: "x \<in> declared_vars n m (length ?fr)"
  have frd: "?s ! d = \<sigma> (day_var d)" if "d \<in> set ?fr" for d
    using that by (simp add: weekend_fridays_mem schedule_of_nth)
  show "\<sigma> x = schedule_valuation ?fr ?s x"
  proof (cases x)
    case (day_var d)
    with x show ?thesis by (simp add: schedule_of_nth)
  next
    case (b_var i d)
    with x have id: "int i < n" "int d < m" by simp_all
    from b_channel[OF M sat id] show ?thesis
      by (auto simp: b_var schedule_of_nth[OF id(2)])
  next
    case (w_var i k)
    with x have ik: "int i < n" "k < length ?fr" by simp_all
    from ik(2) have "?s ! (?fr ! k) = \<sigma> (day_var (?fr ! k))" by (simp add: frd)
    with w_channel[OF M sat si ik] show ?thesis
      by (auto simp: w_var)
  next
    case (weekend_used_var i)
    with x have i: "int i < n" by simp
    have "list_ex (\<lambda>d. ?s ! d = int i) ?fr \<longleftrightarrow> (\<exists>d\<in>set ?fr. \<sigma> (day_var d) = int i)"
      unfolding list_ex_iff using frd by auto
    with used_channel[OF M sat si i] show ?thesis
      by (simp add: weekend_used_var)
  qed
qed

lemma schedule_of_valuation:
  assumes "length s = nat m"
  shows "schedule_of (schedule_valuation fr s) m = s"
proof -
  have "schedule_of (schedule_valuation fr s) m = map (\<lambda>d. s ! d) [0..<length s]"
    by (simp add: schedule_of_def range_py_def assms)
  then show ?thesis by (simp add: map_nth)
qed

lemma canon_satisfies_iff:
  assumes M: "cp_sat_model n m sd ps = Inr M" and si: "list_index days sd = Inr si"
    and len: "length s = nat m" and n: "0 < n"
  shows "satisfies em (schedule_valuation (weekend_fridays si m) s) M \<longleftrightarrow>
     schedule_valid n m (weekend_fridays si m) ps s \<and> (weekend_fridays si m = [] \<longrightarrow> em 0)"
proof -
  let ?fr = "weekend_fridays si m"
  let ?c = "schedule_valuation ?fr s"
  from M si obtain dis where dis: "disallowed (day_vars m) ps = Inr dis" by (rule model_parts)
  have frm: "\<forall>d\<in>set ?fr. int d < m" by (simp add: weekend_fridays_mem)
  have dom: "list_all (in_domain ?c) (day_var_decls n m) \<longleftrightarrow> list_all (\<lambda>x. 0 \<le> x \<and> x < n) s"
    by (rule canon_day_decls[OF len])
  have forb: "list_all (\<lambda>(i, d). ?c (day_var (day_position m d)) \<noteq> i) ps
      \<longleftrightarrow> forbidden_days_ok m ps s"
    by (simp add: forbidden_days_ok_def)
  show ?thesis
  proof (cases "list_all (\<lambda>x. 0 \<le> x \<and> x < n) s \<and> weekend_pairing ?fr s")
    case False
    then show ?thesis
      unfolding satisfies_sections[OF M si] dom canon_weekend_same schedule_valid_def
        assignment_ok_def
      by blast
  next
    case True
    then have ok: "assignment_ok n m s" and pair: "weekend_pairing ?fr s"
      by (simp_all add: assignment_ok_def len)
    show ?thesis
      unfolding satisfies_sections[OF M si] dom canon_weekend_same forb
        canon_no_four[OF ok] canon_spread[OF ok pair frm n]
        canon_fair_totals[OF len n] canon_window[OF len n] canon_fair_weekends[OF pair n]
        schedule_valid_def
      using ok pair canon_bool_decls canon_b_links canon_w_links[OF pair]
      by (simp add: assignment_ok_def) blast
  qed
qed

lemma solutions_are_valid_schedules:
  assumes M: "cp_sat_model n m sd ps = Inr M" and si: "list_index days sd = Inr si"
  shows "(\<exists>\<sigma>. satisfies em \<sigma> M \<and> schedule_of \<sigma> m = s) \<longleftrightarrow>
     0 < n \<and> schedule_valid n m (weekend_fridays si m) ps s
     \<and> (weekend_fridays si m = [] \<longrightarrow> em 0)"
proof
  let ?fr = "weekend_fridays si m"
  assume "\<exists>\<sigma>. satisfies em \<sigma> M \<and> schedule_of \<sigma> m = s"
  then obtain \<sigma> where sat: "satisfies em \<sigma> M" and s: "schedule_of \<sigma> m = s" by blast
  from M sat have n: "0 < n" by (rule satisfies_n_pos)
  from s have len: "length s = nat m" by auto
  from valuation_determined[OF M sat si] s
  have "satisfies em \<sigma> M = satisfies em (schedule_valuation ?fr s) M"
    by (intro satisfies_cong[OF M si]) simp
  with sat have "satisfies em (schedule_valuation ?fr s) M" by simp
  with canon_satisfies_iff[OF M si len n] n
  show "0 < n \<and> schedule_valid n m ?fr ps s \<and> (?fr = [] \<longrightarrow> em 0)" by blast
next
  let ?fr = "weekend_fridays si m"
  assume a: "0 < n \<and> schedule_valid n m ?fr ps s \<and> (?fr = [] \<longrightarrow> em 0)"
  then have len: "length s = nat m" by (simp add: schedule_valid_def assignment_ok_def)
  from a canon_satisfies_iff[OF M si len] have "satisfies em (schedule_valuation ?fr s) M"
    by blast
  with schedule_of_valuation[OF len]
  show "\<exists>\<sigma>. satisfies em \<sigma> M \<and> schedule_of \<sigma> m = s" by blast
qed

section \<open>Facts about the concrete inputs\<close>

lemma example1_model:
  "\<exists>M. cp_sat_model 3 30 ''Friday'' example1_disallowed_pairs = Inr M"
  by (rule model_exists)
    (simp_all add: days_def is_int64_def pair_ok_def day_index_ok_def example1_disallowed_pairs_def)

lemma two_doctor_run:
  "cp_sat_generate_schedule
      (candidate_solver (\<lambda>v. False) (schedule_valuation (weekend_fridays 4 30) two_doctor_schedule))
      2 30 ''Friday'' [(0, 0), (0, 1)] 10 8 None = Inr two_doctor_schedule"
  by code_simp

lemma ui_pairs_example:
  "app_disallowed_pairs [(0, [''1/11 - Friday'', ''2/11 - Saturday'']), (1, [])]
     = Inr [(0, 0), (1, 0)]"
  by code_simp

lemma weekdays_5: "list_getitem weekdays 5 = Inr ''Friday''"
  by code_simp

lemma three_doctor_ui_run:
  "generate_button
      (candidate_solver (\<lambda>v. False)
         (schedule_valuation (weekend_fridays 4 30) example1_feasible_schedule))
      3 30 5 [(0, [''5/11 - Tuesday'']), (1, []), (2, [])] = Inr example1_feasible_schedule"
  by code_simp

lemma day_zero_blocked:
  assumes "solver_sound em Solve"
  shows "cp_sat_generate_schedule Solve 2 30 ''Friday'' [(0, 0), (1, 0)] tlim nw seed
       = Inl (RuntimeError ''No valid schedule found.'')"
proof -
  let ?prm = "\<lparr>max_time_in_seconds = tlim, num_search_workers = nw, random_seed = seed\<rparr>"
  obtain M where M: "cp_sat_model 2 30 ''Friday'' [(0, 0), (1, 0)] = Inr M"
    using model_exists[of "''Friday''" 30 2 "[(0, 0), (1, 0)]"]
    by (auto simp: days_def is_int64_def pair_ok_def day_index_ok_def)
  have unsat: "\<not> satisfies em \<sigma> M" for \<sigma>
  proof
    assume sat: "satisfies em \<sigma> M"
    from sat have "0 \<le> \<sigma> (day_var 0) \<and> \<sigma> (day_var 0) \<le> 1"
      unfolding satisfies_sections[OF M days_simps(2)] day_decls_sem by simp
    moreover from sat have "\<sigma> (day_var 0) \<noteq> 0 \<and> \<sigma> (day_var 0) \<noteq> 1"
      unfolding satisfies_sections[OF M days_simps(2)] by (simp add: day_position_def)
    ultimately show False by arith
  qed
  from assms unsat[of "snd (Solve ?prm M)"]
  have "fst (Solve ?prm M) \<noteq> OPTIMAL" "fst (Solve ?prm M) \<noteq> FEASIBLE"
    by (auto simp: solver_sound_def)
  with M show ?thesis by (rule generate_not_solved)
qed

lemma weekend_fridays_6_1: "weekend_fridays 6 1 = []"
  by code_simp

lemma single_day_model:
  "\<exists>M. cp_sat_model 1 1 ''Sunday'' [] = Inr M"
  by (rule model_exists) (simp_all add: days_def is_int64_def)

lemma single_day_other_reading:
  assumes "cp_sat_model 1 1 ''Sunday'' [] = Inr M" and "em 0"
  shows "satisfies em (schedule_valuation (weekend_fridays 6 1) [0]) M"
proof -
  have "schedule_valid 1 1 (weekend_fridays 6 1) [] [0]" by code_simp
  with canon_satisfies_iff[OF assms(1) days_simps(3), of "[0]" em] assms(2)
  show ?thesis by simp
qed

section \<open>Facts about the caller\<close>

lemma off_day_pairs_mem:
  assumes "off_day_pairs i ds = Inr ps" and "(a, b) \<in> set ps"
  shows "b = i \<and> (\<exists>day\<in>set ds. int_of_str (before_slash day) = Inr (a + 1))"
  using assms
proof (induction ds arbitrary: ps)
  case Nil
  then show ?case by simp
next
  case (Cons day ds)
  from Cons.prems(1) obtain k qs where k: "int_of_str (before_slash day) = Inr k"
    and qs: "off_day_pairs i ds = Inr qs" and ps: "ps = (k - 1, i) # qs"
    by (auto split: sum.splits)
  from Cons.prems(2) ps consider "(a, b) = (k - 1, i)" | "(a, b) \<in> set qs" by auto
  then show ?case
  proof cases
    case 1
    with k show ?thesis by simp
  next
    case 2
    from Cons.IH[OF qs 2] show ?thesis by simp
  qed
qed

lemma app_disallowed_pairs_mem:
  assumes "app_disallowed_pairs off_days = Inr ps" and "(a, b) \<in> set ps"
  shows "\<exists>ds. (b, ds) \<in> set off_days
           \<and> (\<exists>day\<in>set ds. int_of_str (before_slash day) = Inr (a + 1))"
  using assms
proof (induction off_days arbitrary: ps)
  case Nil
  then show ?case by simp
next
  case (Cons p rest)
  obtain i ds where p: "p = (i, ds)" by (cases p)
  from Cons.prems(1) obtain qs rs where qs: "off_day_pairs i ds = Inr qs"
    and rs: "app_disallowed_pairs rest = Inr rs" and ps: "ps = qs @ rs"
    by (auto simp: p split: sum.splits)
  from Cons.prems(2) ps consider "(a, b) \<in> set qs" | "(a, b) \<in> set rs" by auto
  then show ?case
  proof cases
    case 1
    from off_day_pairs_mem[OF qs 1] show ?thesis by (auto simp: p)
  next
    case 2
    from Cons.IH[OF rs 2] show ?thesis by auto
  qed
qed

section \<open>Failure values (claims C2 and C3)\<close>

text \<open>
  Claim C3, as the code has it. The claim asks for a failure value that tells a proven
  infeasibility from an elapsed time budget. The code has one \<^verbatim>\<open>raise\<close> (line 102) for
  every status other than \<^verbatim>\<open>OPTIMAL\<close> and \<^verbatim>\<open>FEASIBLE\<close>: whether the solver reports
  \<^verbatim>\<open>INFEASIBLE\<close>, \<^verbatim>\<open>UNKNOWN\<close> (the status of an elapsed budget) or \<^verbatim>\<open>MODEL_INVALID\<close>,
  the caller receives the same \<^verbatim>\<open>RuntimeError("No valid schedule found.")\<close>.
\<close>

theorem failure_values_coincide:
  assumes "cp_sat_model n m start_day ps = Inr M"
    and "fst (Solve \<lparr>max_time_in_seconds = tlim, num_search_workers = nw,
                     random_seed = seed\<rparr> M) = st"
    and "st = INFEASIBLE \<or> st = UNKNOWN \<or> st = MODEL_INVALID"
  shows "cp_sat_generate_schedule Solve n m start_day ps tlim nw seed
           = Inl (RuntimeError ''No valid schedule found.'')"
  using assms by (intro generate_not_solved[OF assms(1)]) auto

theorem failure_values_coincide_witness:
  "cp_sat_generate_schedule (fixed_status_solver INFEASIBLE) 2 5 ''Monday''
       [(0, 0), (0, 1), (0, 2), (0, 3), (0, 4)] 10 8 None
     = Inl (RuntimeError ''No valid schedule found.'')
   \<and> cp_sat_generate_schedule (fixed_status_solver UNKNOWN) 2 5 ''Monday''
       [(0, 0), (0, 1), (0, 2), (0, 3), (0, 4)] 1 8 (Some 7)
     = Inl (RuntimeError ''No valid schedule found.'')"
proof -
  obtain M where M: "cp_sat_model 2 5 ''Monday'' [(0, 0), (0, 1), (0, 2), (0, 3), (0, 4)] = Inr M"
    using scenario4_model by blast
  show ?thesis
    using failure_values_coincide[OF M, of "fixed_status_solver INFEASIBLE" 10 8 None INFEASIBLE]
      failure_values_coincide[OF M, of "fixed_status_solver UNKNOWN" 1 8 "Some 7" UNKNOWN]
    by (simp add: fixed_status_solver_def)
qed

text \<open>
  The claim as stated fails on the spec's own infeasible scenario (2 doctors, 5 days,
  doctor 0 forbidden every day): a run in which the solver proves infeasibility and a
  run in which it gives up return the same value.
\<close>

theorem infeasible_and_timed_out_same_value:
  "cp_sat_generate_schedule (fixed_status_solver INFEASIBLE) 2 5 ''Monday''
       [(0, 0), (0, 1), (0, 2), (0, 3), (0, 4)] 10 8 None
   = cp_sat_generate_schedule (fixed_status_solver UNKNOWN) 2 5 ''Monday''
       [(0, 0), (0, 1), (0, 2), (0, 3), (0, 4)] 10 8 None"
proof -
  obtain M where M: "cp_sat_model 2 5 ''Monday'' [(0, 0), (0, 1), (0, 2), (0, 3), (0, 4)] = Inr M"
    using scenario4_model by blast
  show ?thesis
    by (simp add: cp_sat_generate_schedule_def M fixed_status_solver_def)
qed




section \<open>Negative day indices (claim C9)\<close>

text \<open>
  Claim C9. A disallowed pair \<open>(i, d)\<close> with \<open>-m \<le> d < 0\<close> raises nothing:
  \<^verbatim>\<open>day_vars[d]\<close> is the variable of day \<open>m + d\<close>. The model built, and so the outcome
  of the call, are those of the pair \<open>(i, m + d)\<close>; and when the solver is sound, a
  returned schedule does not give day \<open>m + d\<close> to doctor \<open>i\<close>.
\<close>

theorem negative_day_index_wraps:
  assumes "- m \<le> d" and "d < 0"
  shows "list_getitem (day_vars m) d = Inr (day_var (nat (m + d)))
     \<and> cp_sat_model n m sd (ps @ (i, d) # qs) = cp_sat_model n m sd (ps @ (i, m + d) # qs)
     \<and> cp_sat_generate_schedule Solve n m sd (ps @ (i, d) # qs) tlim nw seed
        = cp_sat_generate_schedule Solve n m sd (ps @ (i, m + d) # qs) tlim nw seed
     \<and> (solver_sound em Solve \<longrightarrow>
          (\<forall>s. cp_sat_generate_schedule Solve n m sd (ps @ (i, d) # qs) tlim nw seed = Inr s
             \<longrightarrow> s ! nat (m + d) \<noteq> i))"
  using assms by (rule negative_day_index_helper)

theorem negative_day_index_wraps_witness:
  "list_getitem (day_vars 4) (- 1) = Inr (day_var 3)
   \<and> cp_sat_model 2 4 ''Friday'' [(0, - 1)] = cp_sat_model 2 4 ''Friday'' [(0, 3)]
   \<and> cp_sat_generate_schedule
        (candidate_solver (\<lambda>v. False) (schedule_valuation (weekend_fridays 4 4) [0, 0, 1, 1]))
        2 4 ''Friday'' [(0, - 1)] 10 8 None = Inr [0, 0, 1, 1]
   \<and> [0, 0, 1, 1] ! 3 \<noteq> (0::int)"
proof -
  have run: "cp_sat_generate_schedule
        (candidate_solver (\<lambda>v. False) (schedule_valuation (weekend_fridays 4 4) [0, 0, 1, 1]))
        2 4 ''Friday'' [(0, - 1)] 10 8 None = Inr [0, 0, 1, 1]"
    by code_simp
  have snd: "solver_sound (\<lambda>v. False)
        (candidate_solver (\<lambda>v. False) (schedule_valuation (weekend_fridays 4 4) [0, 0, 1, 1]))"
    by (rule candidate_solver_sound)
  from negative_day_index_wraps[where m = 4 and d = "- 1" and n = 2 and sd = "''Friday''"
      and ps = "[]" and i = 0 and qs = "[]" and tlim = 10 and nw = 8 and seed = None
      and em = "\<lambda>v. False"
      and Solve = "candidate_solver (\<lambda>v. False)
                     (schedule_valuation (weekend_fridays 4 4) [0, 0, 1, 1])"] snd run
  show ?thesis by simp
qed

section \<open>The run constraint (claim C7)\<close>

text \<open>
  Claim C7, as the code has it. Line 49 is \<^verbatim>\<open>for d in range(m-3)\<close>: the model holds the
  constraint for doctor \<open>i\<close> and window start \<open>d\<close> exactly when \<open>i < n\<close> and \<open>d + 3 < m\<close>,
  that is, for \<open>0 \<le> d \<le> m - 4\<close> (the windows that lie inside the month), not for
  \<open>d = m - 3\<close>; for \<open>m < 4\<close> it holds none.
\<close>

theorem run_constraints_of_model:
  assumes "cp_sat_model n m sd ps = Inr M"
  shows "(run_constraint i d \<in> set (constraints M) \<longleftrightarrow> int i < n \<and> int d + 3 < m)
     \<and> (m < 4 \<longrightarrow> run_constraint i d \<notin> set (constraints M))"
  using run_constraint_in_model[OF assms, of i d] by auto

theorem run_constraints_of_model_witness:
  "(\<exists>M. cp_sat_model 1 5 ''Friday'' [] = Inr M
        \<and> run_constraint 0 1 \<in> set (constraints M) \<and> run_constraint 0 2 \<notin> set (constraints M))
   \<and> (\<exists>M. cp_sat_model 1 3 ''Friday'' [] = Inr M \<and> run_constraint 0 0 \<notin> set (constraints M))"
proof -
  obtain M where M: "cp_sat_model 1 5 ''Friday'' [] = Inr M"
    using model_exists[of "''Friday''" 5 1 "[]"] by (auto simp: days_def is_int64_def)
  obtain M' where M': "cp_sat_model 1 3 ''Friday'' [] = Inr M'"
    using model_exists[of "''Friday''" 3 1 "[]"] by (auto simp: days_def is_int64_def)
  from run_constraints_of_model[OF M, of 0 1] run_constraints_of_model[OF M, of 0 2]
    run_constraints_of_model[OF M', of 0 0] M M'
  show ?thesis by simp
qed

text \<open>
  The claim as stated fails at the last window start it names: with \<open>m = 4\<close> the start
  \<open>d = 1 = m - 3\<close> has no constraint in the model.
\<close>

theorem no_run_constraint_at_m_minus_3:
  "run_constraint 0 1 \<notin> set (constraints (projr (cp_sat_model 1 4 ''Friday'' [])))"
proof -
  have "\<exists>M. cp_sat_model 1 4 ''Friday'' [] = Inr M"
    by (rule model_exists) (simp_all add: days_def is_int64_def)
  then obtain M where M: "cp_sat_model 1 4 ''Friday'' [] = Inr M" ..
  from run_constraint_in_model[OF M, of 0 1] show ?thesis by (simp add: M)
qed

section \<open>The indicators (claim C6)\<close>

text \<open>
  Claim C6. In every valuation that satisfies the model, \<open>b[i, d]\<close> is 1 exactly when
  day \<open>d\<close> has doctor \<open>i\<close>, and \<open>w[i, k]\<close> is 1 exactly when doctor \<open>i\<close> has both days of
  weekend block \<open>k\<close>; each indicator is 0 or 1. For \<open>w\<close> this follows from its links
  (lines 43-45) and its domain alone: a \<open>w\<close> that is 1 has the doctor on both days, and
  a \<open>w\<close> that is not 1 is 0 and has the doctor off the Friday.
\<close>

theorem indicators_channel:
  assumes "cp_sat_model n m sd ps = Inr M" and "satisfies em \<sigma> M"
    and "list_index days sd = Inr si"
  shows "(int i < n \<and> int d < m \<longrightarrow>
            (\<sigma> (b_var i d) = 1 \<longleftrightarrow> \<sigma> (day_var d) = int i)
            \<and> (\<sigma> (b_var i d) = 0 \<or> \<sigma> (b_var i d) = 1))
     \<and> (int i < n \<and> k < length (weekend_fridays si m) \<longrightarrow>
            (\<sigma> (w_var i k) = 1 \<longleftrightarrow>
               \<sigma> (day_var (weekend_fridays si m ! k)) = int i
               \<and> \<sigma> (day_var (weekend_fridays si m ! k + 1)) = int i)
            \<and> (\<sigma> (w_var i k) = 0 \<or> \<sigma> (w_var i k) = 1))"
  using b_channel[OF assms(1,2), of i d] w_channel[OF assms, of i k] by blast

theorem indicators_channel_witness:
  "\<exists>M. cp_sat_model 2 4 ''Friday'' [] = Inr M
     \<and> satisfies (\<lambda>v. False) (schedule_valuation (weekend_fridays 4 4) [0, 0, 1, 1]) M
     \<and> schedule_valuation (weekend_fridays 4 4) [0, 0, 1, 1] (b_var 1 2) = 1
     \<and> schedule_valuation (weekend_fridays 4 4) [0, 0, 1, 1] (day_var 2) = 1
     \<and> schedule_valuation (weekend_fridays 4 4) [0, 0, 1, 1] (w_var 1 0) = 0
     \<and> schedule_valuation (weekend_fridays 4 4) [0, 0, 1, 1]
          (day_var (weekend_fridays 4 4 ! 0)) \<noteq> 1"
proof -
  obtain M where M: "cp_sat_model 2 4 ''Friday'' [] = Inr M"
    using model_exists[of "''Friday''" 4 2 "[]"] by (auto simp: days_def is_int64_def)
  have "case cp_sat_model 2 4 ''Friday'' [] of
          Inl e \<Rightarrow> False
        | Inr M \<Rightarrow> satisfies (\<lambda>v. False) (schedule_valuation (weekend_fridays 4 4) [0, 0, 1, 1]) M"
    by code_simp
  with M have sat: "satisfies (\<lambda>v. False) (schedule_valuation (weekend_fridays 4 4) [0, 0, 1, 1]) M"
    by simp
  have fr: "weekend_fridays 4 4 = [0]" by code_simp
  from indicators_channel[OF M sat days_simps(2), of 1 2 0] M sat
  show ?thesis by (simp add: fr)
qed

section \<open>The weekend spread (claim C5)\<close>

text \<open>
  Claim C5. Whenever the call returns a schedule (and the solver is sound), the number
  of distinct doctors who cover a weekend block of it is exactly \<open>min(n, W)\<close>, \<open>W\<close> the
  number of weekend blocks: an equality, as line 62 has it.
\<close>

theorem weekend_spread_is_equality:
  assumes "solver_sound em Solve"
    and "cp_sat_generate_schedule Solve n m sd ps tlim nw seed = Inr s"
    and "list_index days sd = Inr si"
  shows "int (card (weekend_doctors (weekend_fridays si m) s))
       = min n (int (length (weekend_fridays si m)))"
proof -
  from assms(1,2) obtain M \<sigma> where M: "cp_sat_model n m sd ps = Inr M"
    and sat: "satisfies em \<sigma> M" and s: "s = map (\<lambda>d. \<sigma> (day_var d)) (range_py m)"
    by (rule generate_sound)
  from s have "s = schedule_of \<sigma> m" by (simp add: schedule_of_def)
  with weekend_spread_sound[OF M sat assms(3)] show ?thesis by simp
qed

theorem weekend_spread_is_equality_witness:
  "cp_sat_generate_schedule
      (candidate_solver (\<lambda>v. False)
         (schedule_valuation (weekend_fridays 4 30) example1_feasible_schedule))
      3 30 ''Friday'' example1_disallowed_pairs 10 8 None = Inr example1_feasible_schedule
   \<and> card (weekend_doctors (weekend_fridays 4 30) example1_feasible_schedule) = 3
   \<and> length (weekend_fridays 4 30) = 5"
  using weekend_spread_is_equality[OF candidate_solver_sound example1_run days_simps(2)]
    example1_run
  by (simp add: weekend_fridays_30)

section \<open>The first example (claim C1)\<close>



section \<open>The pairs the user interface passes (claim C4)\<close>

text \<open>
  Claim C4 against the code. Line 135 of \<^verbatim>\<open>app.py\<close> builds each pair as (day index,
  doctor index), and the core reads the first component as the doctor (line 65). With
  two doctors and November 2024 (30 days from a Friday), doctor 0 selecting the 1st and
  the 2nd gives the pairs \<open>(0, 0)\<close> and \<open>(1, 0)\<close> where the claim has \<open>(0, 0)\<close> and
  \<open>(0, 1)\<close>: the core reads them as doctor 0 and doctor 1 both off on day 0, so whenever
  the solver is sound the handler ends with the \<^verbatim>\<open>RuntimeError\<close> of line 102. With the
  pairs in the order of the claim the core has a schedule to return, with doctor 0 off
  on both days. With three doctors, doctor 0 selecting the 5th gives the pair \<open>(4, 0)\<close>,
  which forbids nothing (there is no doctor 4): the model admits a schedule with
  doctor 0 on the 5th (day index 4), which the handler returns for a solver that
  finds it.
\<close>

theorem ui_pairs_are_swapped:
  assumes "solver_sound em Solve"
  shows "app_disallowed_pairs [(0, [''1/11 - Friday'', ''2/11 - Saturday'']), (1, [])]
       = Inr [(0, 0), (1, 0)]
     \<and> generate_button Solve 2 30 5 [(0, [''1/11 - Friday'', ''2/11 - Saturday'']), (1, [])]
       = Inl (RuntimeError ''No valid schedule found.'')
     \<and> cp_sat_generate_schedule
          (candidate_solver (\<lambda>v. False)
             (schedule_valuation (weekend_fridays 4 30) two_doctor_schedule))
          2 30 ''Friday'' [(0, 0), (0, 1)] 10 8 None = Inr two_doctor_schedule
     \<and> two_doctor_schedule ! 0 \<noteq> 0 \<and> two_doctor_schedule ! 1 \<noteq> 0
     \<and> app_disallowed_pairs [(0, [''5/11 - Tuesday'']), (1, []), (2, [])] = Inr [(4, 0)]
     \<and> generate_button
          (candidate_solver (\<lambda>v. False)
             (schedule_valuation (weekend_fridays 4 30) example1_feasible_schedule))
          3 30 5 [(0, [''5/11 - Tuesday'']), (1, []), (2, [])] = Inr example1_feasible_schedule
     \<and> example1_feasible_schedule ! 4 = 0"
proof -
  have "generate_button Solve 2 30 5 [(0, [''1/11 - Friday'', ''2/11 - Saturday'']), (1, [])]
       = Inl (RuntimeError ''No valid schedule found.'')"
    by (simp only: generate_button_def ui_pairs_example generate_schedule_def weekdays_5
        day_zero_blocked[OF assms] sum.case)
  moreover have "two_doctor_schedule ! 0 \<noteq> 0" "two_doctor_schedule ! 1 \<noteq> 0"
    by (simp_all add: two_doctor_schedule_def)
  moreover have "app_disallowed_pairs [(0, [''5/11 - Tuesday'']), (1, []), (2, [])]
      = Inr [(4, 0)]"
    by code_simp
  moreover have "example1_feasible_schedule ! 4 = 0"
    by (simp add: example1_feasible_schedule_def)
  ultimately show ?thesis using ui_pairs_example two_doctor_run three_doctor_ui_run
    by (simp only: simp_thms)
qed

theorem ui_pairs_are_swapped_witness:
  "generate_button
      (candidate_solver (\<lambda>v. False) (schedule_valuation (weekend_fridays 4 30) two_doctor_schedule))
      2 30 5 [(0, [''1/11 - Friday'', ''2/11 - Saturday'']), (1, [])]
     = Inl (RuntimeError ''No valid schedule found.'')"
  using ui_pairs_are_swapped[OF candidate_solver_sound[of "\<lambda>v. False"
        "schedule_valuation (weekend_fridays 4 30) two_doctor_schedule"]]
  by simp

section \<open>A month without a weekend block (claim C10)\<close>

text \<open>
  Claim C10 against the code. For one doctor and one day, a Sunday, the model is built
  without an exception, but line 61 adds \<^verbatim>\<open>AddMaxEquality(weekend_used[0], [])\<close>, a
  maximum of no expression. For a solver that takes such a constraint to be
  unsatisfiable, as CP-SAT does (\<open>empty_max = (\<lambda>v. False)\<close>), no valuation satisfies the
  model: whenever the solver is sound the call ends with the \<^verbatim>\<open>RuntimeError\<close> of line
  102 and does not return \<open>[0]\<close>, although \<open>[0]\<close> satisfies invariants 1 to 8. The
  weekend fairness of lines 86-91 is guarded by \<^verbatim>\<open>if W > 0\<close>; the weekend spread of
  lines 57-62 is not. (For a solver that lets the maximum of nothing be 0 the list
  \<open>[0]\<close> is a solution of the model: lemma \<open>single_day_other_reading\<close>.)
\<close>

theorem single_day_month_fails:
  assumes "solver_sound (\<lambda>v. False) Solve"
  shows "(\<exists>M. cp_sat_model 1 1 ''Sunday'' [] = Inr M
            \<and> MaxEquality (weekend_used_var 0) [] \<in> set (constraints M))
     \<and> cp_sat_generate_schedule Solve 1 1 ''Sunday'' [] tlim nw seed
          = Inl (RuntimeError ''No valid schedule found.'')
     \<and> schedule_valid 1 1 (weekend_fridays 6 1) [] [0]"
proof -
  let ?prm = "\<lparr>max_time_in_seconds = tlim, num_search_workers = nw, random_seed = seed\<rparr>"
  obtain M where M: "cp_sat_model 1 1 ''Sunday'' [] = Inr M"
    using single_day_model by blast
  from M days_simps(3) obtain dis where
    cts: "constraints M = b_links 1 1 @ w_links 1 (weekend_fridays 6 1)
        @ no_four_consecutive 1 1 @ weekend_same_doctor (weekend_fridays 6 1)
        @ weekend_spread 1 (length (weekend_fridays 6 1)) @ dis
        @ fair_totals 1 1 (1 div 1) ((1 + 1 - 1) div 1) @ window_coverage 1 1
        @ fair_weekends 1 (length (weekend_fridays 6 1))"
    by (rule model_parts)
  have "MaxEquality (weekend_used_var 0) [] \<in> set (weekend_spread 1 0)"
    by (simp add: weekend_spread_def weekend_used_def range_py_def)
  then have mem: "MaxEquality (weekend_used_var 0) [] \<in> set (constraints M)"
    unfolding cts by (simp add: weekend_fridays_6_1)
  have unsat: "\<not> satisfies (\<lambda>v. False) \<sigma> M" for \<sigma>
  proof
    assume "satisfies (\<lambda>v. False) \<sigma> M"
    then have "list_all (holds (\<lambda>v. False) \<sigma>) (constraints M)" by (simp add: satisfies_def)
    with mem have "holds (\<lambda>v. False) \<sigma> (MaxEquality (weekend_used_var 0) [])"
      unfolding list_all_iff by blast
    then show False by simp
  qed
  from assms unsat[of "snd (Solve ?prm M)"]
  have "fst (Solve ?prm M) \<noteq> OPTIMAL" "fst (Solve ?prm M) \<noteq> FEASIBLE"
    by (auto simp: solver_sound_def)
  with M have run: "cp_sat_generate_schedule Solve 1 1 ''Sunday'' [] tlim nw seed
          = Inl (RuntimeError ''No valid schedule found.'')"
    by (rule generate_not_solved)
  have "schedule_valid 1 1 (weekend_fridays 6 1) [] [0]"
    by code_simp
  with M mem run show ?thesis by blast
qed

theorem single_day_month_fails_witness:
  "cp_sat_generate_schedule
      (candidate_solver (\<lambda>v. False) (schedule_valuation (weekend_fridays 6 1) [0]))
      1 1 ''Sunday'' [] 10 8 None
     = Inl (RuntimeError ''No valid schedule found.'')"
  using single_day_month_fails[OF candidate_solver_sound[of "\<lambda>v. False"
        "schedule_valuation (weekend_fridays 6 1) [0]"], of 10 8 None]
  by simp

section \<open>The model and the invariants of the specification\<close>

text \<open>
  The schedules the model of the code admits are exactly the schedules that satisfy
  invariants 1 to 8 of the specification, for a positive number of doctors and, when
  the month has no weekend block, a solver for which the maximum of nothing can be 0.
\<close>

theorem model_refines_invariants:
  assumes "cp_sat_model n m sd ps = Inr M" and "list_index days sd = Inr si"
  shows "(\<exists>\<sigma>. satisfies em \<sigma> M \<and> schedule_of \<sigma> m = s) \<longleftrightarrow>
     0 < n \<and> schedule_valid n m (weekend_fridays si m) ps s
     \<and> (weekend_fridays si m = [] \<longrightarrow> em 0)"
  using assms by (rule solutions_are_valid_schedules)

theorem model_refines_invariants_witness:
  "\<exists>M. cp_sat_model 3 30 ''Friday'' example1_disallowed_pairs = Inr M
     \<and> (\<exists>\<sigma>. satisfies (\<lambda>v. False) \<sigma> M \<and> schedule_of \<sigma> 30 = example1_feasible_schedule)
     \<and> schedule_valid 3 30 (weekend_fridays 4 30) example1_disallowed_pairs
          example1_feasible_schedule"
proof -
  obtain M where M: "cp_sat_model 3 30 ''Friday'' example1_disallowed_pairs = Inr M"
    using example1_model by blast
  have v: "schedule_valid 3 30 (weekend_fridays 4 30) example1_disallowed_pairs
          example1_feasible_schedule"
    by (simp add: schedule_valid_def example1_feasible_facts)
  have "weekend_fridays 4 30 \<noteq> []" by (simp add: weekend_fridays_30)
  with model_refines_invariants[OF M days_simps(2), of "\<lambda>v. False" example1_feasible_schedule] v M
  show ?thesis by simp
qed

text \<open>
  Whenever the call returns a schedule and the solver is sound, the schedule satisfies
  invariants 1 to 8 of the specification.
\<close>

theorem returned_schedule_is_valid:
  assumes "solver_sound em Solve"
    and "cp_sat_generate_schedule Solve n m sd ps tlim nw seed = Inr s"
    and "list_index days sd = Inr si"
  shows "0 < n \<and> schedule_valid n m (weekend_fridays si m) ps s"
proof -
  from assms(1,2) obtain M \<sigma> where M: "cp_sat_model n m sd ps = Inr M"
    and sat: "satisfies em \<sigma> M" and s: "s = map (\<lambda>d. \<sigma> (day_var d)) (range_py m)"
    by (rule generate_sound)
  from s have "schedule_of \<sigma> m = s" by (simp add: schedule_of_def)
  with sat solutions_are_valid_schedules[OF M assms(3), of em s] show ?thesis by blast
qed

theorem returned_schedule_is_valid_witness:
  "cp_sat_generate_schedule
      (candidate_solver (\<lambda>v. False)
         (schedule_valuation (weekend_fridays 4 30) example1_feasible_schedule))
      3 30 ''Friday'' example1_disallowed_pairs 10 8 None = Inr example1_feasible_schedule
   \<and> schedule_valid 3 30 (weekend_fridays 4 30) example1_disallowed_pairs
        example1_feasible_schedule"
  using returned_schedule_is_valid[OF candidate_solver_sound example1_run days_simps(2)]
    example1_run
  by simp

text \<open>
  When the month has no weekend block and the solver takes a maximum of nothing to be
  unsatisfiable, as CP-SAT does, the call returns no schedule, whatever the other
  arguments are.
\<close>

theorem no_weekend_block_no_schedule:
  assumes "solver_sound (\<lambda>v. False) Solve" and "list_index days sd = Inr si"
    and "weekend_fridays si m = []"
  shows "cp_sat_generate_schedule Solve n m sd ps tlim nw seed \<noteq> Inr s"
proof
  assume run: "cp_sat_generate_schedule Solve n m sd ps tlim nw seed = Inr s"
  from assms(1) run obtain M \<sigma> where M: "cp_sat_model n m sd ps = Inr M"
    and sat: "satisfies (\<lambda>v. False) \<sigma> M" and s: "s = map (\<lambda>d. \<sigma> (day_var d)) (range_py m)"
    by (rule generate_sound)
  from s have "schedule_of \<sigma> m = s" by (simp add: schedule_of_def)
  with sat solutions_are_valid_schedules[OF M assms(2), of "\<lambda>v. False" s] assms(3)
  show False by blast
qed

theorem no_weekend_block_no_schedule_witness:
  "weekend_fridays 0 4 = []
   \<and> cp_sat_generate_schedule
        (candidate_solver (\<lambda>v. False) (schedule_valuation (weekend_fridays 0 4) [0, 1, 0, 1]))
        2 4 ''Monday'' [] 10 8 None \<noteq> Inr [0, 1, 0, 1]
   \<and> schedule_valid 2 4 (weekend_fridays 0 4) [] [0, 1, 0, 1]"
proof -
  have fr: "weekend_fridays 0 4 = []" by code_simp
  have v: "schedule_valid 2 4 (weekend_fridays 0 4) [] [0, 1, 0, 1]" by code_simp
  from no_weekend_block_no_schedule[OF candidate_solver_sound days_simps(1) fr,
      of "schedule_valuation (weekend_fridays 0 4) [0, 1, 0, 1]" 2 "[]" 10 8 None "[0, 1, 0, 1]"]
    fr v
  show ?thesis by simp
qed

section \<open>The pairs of the user interface, in general\<close>

text \<open>
  Every pair that line 135 of \<^verbatim>\<open>app.py\<close> builds has a doctor index as its second
  component and, as its first, the number of a day that this doctor selected, less one.
\<close>

theorem ui_pair_is_day_then_doctor:
  assumes "app_disallowed_pairs off_days = Inr ps" and "(a, b) \<in> set ps"
  shows "\<exists>ds day. (b, ds) \<in> set off_days \<and> day \<in> set ds
           \<and> int_of_str (before_slash day) = Inr (a + 1)"
  using app_disallowed_pairs_mem[OF assms] by blast

theorem ui_pair_is_day_then_doctor_witness:
  "app_disallowed_pairs [(0, [''5/11 - Tuesday'']), (1, []), (2, [''30/11 - Saturday''])]
     = Inr [(4, 0), (29, 2)]
   \<and> int_of_str (before_slash ''5/11 - Tuesday'') = Inr 5"
proof -
  have a: "app_disallowed_pairs [(0, [''5/11 - Tuesday'']), (1, []), (2, [''30/11 - Saturday''])]
     = Inr [(4, 0), (29, 2)]"
    by code_simp
  have b: "int_of_str (before_slash ''30/11 - Saturday'') \<noteq> Inr 5" by code_simp
  from ui_pair_is_day_then_doctor[OF a, of 4 0] a b show ?thesis by auto
qed

end
